theory Spec2Isabelle
  imports Main
begin

section \<open>Workflows\<close>

text \<open>
  The Go package \<^verbatim>\<open>alfred\<close> (file \<^verbatim>\<open>workflow.go\<close>). Go strings are byte
  strings, so they are modelled as \<^typ>\<open>string\<close>; an \<^verbatim>\<open>error\<close> value is
  \<^verbatim>\<open>nil\<close> (\<^term>\<open>None\<close>) or carries an error.
\<close>

subsection \<open>The Workflow struct and OpenWorkflow\<close>

record Workflow =
  name :: string
  bundleID :: string
  cacheDir :: string
  dataDir :: string

text \<open>The zero value of the struct, which a named result holds until it is assigned.\<close>

definition zero_Workflow :: Workflow where
  "zero_Workflow = \<lparr>name = [], bundleID = [], cacheDir = [], dataDir = []\<rparr>"

text \<open>
  \<^verbatim>\<open>OpenWorkflow\<close> reads four environment variables and, when \<^verbatim>\<open>createDirs\<close> is
  set, creates two directories. The environment is a function \<open>getenv\<close> (\<^verbatim>\<open>os.Getenv\<close>
  gives the empty string for an unset variable); the file system is a state \<open>'fs\<close>
  that \<^verbatim>\<open>os.MkdirAll\<close> (of mode 0755) transforms, returning an error or nil. The
  result is the named pair \<^verbatim>\<open>(w, err)\<close> together with the file system left behind.
\<close>

definition OpenWorkflow ::
  "(string \<Rightarrow> string) \<Rightarrow> (string \<Rightarrow> 'fs \<Rightarrow> 'e option \<times> 'fs) \<Rightarrow> 'fs \<Rightarrow>
     string \<Rightarrow> bool \<Rightarrow> (Workflow \<times> 'e option) \<times> 'fs" where
  "OpenWorkflow getenv MkdirAll fs workflowDir createDirs =
     (let bundleID' = getenv ''alfred_workflow_bundleid'';
          name' = getenv ''alfred_workflow_name'';
          cacheDir' = getenv ''alfred_workflow_cache'';
          dataDir' = getenv ''alfred_workflow_data'';
          w = \<lparr>name = name', bundleID = bundleID', cacheDir = cacheDir', dataDir = dataDir'\<rparr>
      in if createDirs then
           (case MkdirAll cacheDir' fs of
              (Some e, fs1) \<Rightarrow> ((zero_Workflow, Some e), fs1)
            | (None, fs1) \<Rightarrow>
                (case MkdirAll dataDir' fs1 of
                   (Some e, fs2) \<Rightarrow> ((zero_Workflow, Some e), fs2)
                 | (None, fs2) \<Rightarrow> ((w, None), fs2)))
         else ((w, None), fs))"

section \<open>JSON text\<close>

text \<open>
  \<^verbatim>\<open>Run\<close> decodes its arguments with \<^verbatim>\<open>json.Unmarshal\<close> of Go's standard library.
  This section models that decoder for a target struct whose fields are all of kind
  string: the syntax of JSON texts as the library's scanner accepts it, the unquoting
  of string literals (with the coercion to well-formed UTF-8), and the storing of an
  object's members into the struct.
\<close>

subsection \<open>Runes and UTF-8\<close>

definition RuneError :: nat where
  "RuneError = 0xFFFD"

definition byte :: "nat \<Rightarrow> char" where
  "byte n = char_of n"

text \<open>\<^verbatim>\<open>utf8.EncodeRune\<close>: surrogates and values beyond U+10FFFF are written as U+FFFD.\<close>

definition EncodeRune :: "nat \<Rightarrow> string" where
  "EncodeRune r =
     (if r \<le> 0x7F then [byte r]
      else if r \<le> 0x7FF then [byte (0xC0 + r div 64), byte (0x80 + r mod 64)]
      else if r > 0x10FFFF \<or> (0xD800 \<le> r \<and> r \<le> 0xDFFF) then
        [byte 0xEF, byte 0xBF, byte 0xBD]
      else if r \<le> 0xFFFF then
        [byte (0xE0 + r div 4096), byte (0x80 + (r div 64) mod 64), byte (0x80 + r mod 64)]
      else
        [byte (0xF0 + r div 262144), byte (0x80 + (r div 4096) mod 64),
         byte (0x80 + (r div 64) mod 64), byte (0x80 + r mod 64)])"

text \<open>
  \<^verbatim>\<open>utf8.DecodeRune\<close>: the rune at the head of a byte string and the number of bytes
  it takes; an invalid or truncated sequence decodes as \<open>(RuneError, 1)\<close>, the empty
  string as \<open>(RuneError, 0)\<close>. The lead byte fixes the length and the range accepted
  for the second byte (the table \<^verbatim>\<open>first\<close> and \<^verbatim>\<open>acceptRanges\<close> of the library).
\<close>

definition lead_info :: "nat \<Rightarrow> (nat \<times> nat \<times> nat) option" where
  "lead_info p0 =
     (if 0xC2 \<le> p0 \<and> p0 \<le> 0xDF then Some (2, 0x80, 0xBF)
      else if p0 = 0xE0 then Some (3, 0xA0, 0xBF)
      else if 0xE1 \<le> p0 \<and> p0 \<le> 0xEC then Some (3, 0x80, 0xBF)
      else if p0 = 0xED then Some (3, 0x80, 0x9F)
      else if 0xEE \<le> p0 \<and> p0 \<le> 0xEF then Some (3, 0x80, 0xBF)
      else if p0 = 0xF0 then Some (4, 0x90, 0xBF)
      else if 0xF1 \<le> p0 \<and> p0 \<le> 0xF3 then Some (4, 0x80, 0xBF)
      else if p0 = 0xF4 then Some (4, 0x80, 0x8F)
      else None)"

definition cont :: "nat \<Rightarrow> bool" where
  "cont b \<longleftrightarrow> 0x80 \<le> b \<and> b \<le> 0xBF"

definition DecodeRune :: "string \<Rightarrow> nat \<times> nat" where
  "DecodeRune p =
     (case map of_char p of
        [] \<Rightarrow> (RuneError, 0)
      | p0 # ps \<Rightarrow>
          if p0 < 0x80 then (p0, 1)
          else (case lead_info p0 of
                  None \<Rightarrow> (RuneError, 1)
                | Some (sz, lo, hi) \<Rightarrow>
                    if length (p0 # ps) < sz then (RuneError, 1)
                    else
                      let b1 = ps ! 0 in
                      if b1 < lo \<or> hi < b1 then (RuneError, 1)
                      else if sz \<le> 2 then ((p0 mod 32) * 64 + b1 mod 64, 2)
                      else
                        let b2 = ps ! 1 in
                        if \<not> cont b2 then (RuneError, 1)
                        else if sz \<le> 3 then
                          ((p0 mod 16) * 4096 + (b1 mod 64) * 64 + b2 mod 64, 3)
                        else
                          let b3 = ps ! 2 in
                          if \<not> cont b3 then (RuneError, 1)
                          else ((p0 mod 8) * 262144 + (b1 mod 64) * 4096
                                  + (b2 mod 64) * 64 + b3 mod 64, 4)))"

lemma lead_info_size: "lead_info p0 = Some (sz, lo, hi) \<Longrightarrow> sz = 2 \<or> sz = 3 \<or> sz = 4"
  by (auto simp: lead_info_def split: if_splits)

lemma DecodeRune_size_pos: "0 < snd (DecodeRune (c # cs))"
  by (simp add: DecodeRune_def Let_def split: option.splits prod.splits)

lemma DecodeRune_size_le: "snd (DecodeRune p) \<le> length p"
proof (cases p)
  case Nil
  then show ?thesis by (simp add: DecodeRune_def)
next
  case (Cons c cs)
  show ?thesis
  proof (cases "lead_info (of_char c)")
    case None
    then show ?thesis by (simp add: DecodeRune_def Cons)
  next
    case (Some t)
    obtain sz lo hi where t: "t = (sz, lo, hi)" by (cases t)
    from Some t have "sz = 2 \<or> sz = 3 \<or> sz = 4" by (auto dest: lead_info_size)
    with Some t show ?thesis by (auto simp: DecodeRune_def Cons Let_def Suc_le_eq)
  qed
qed

subsection \<open>String literals\<close>

definition hexval :: "char \<Rightarrow> nat option" where
  "hexval c =
     (let n = (of_char c :: nat)
      in if 48 \<le> n \<and> n \<le> 57 then Some (n - 48)
         else if 97 \<le> n \<and> n \<le> 102 then Some (n - 87)
         else if 65 \<le> n \<and> n \<le> 70 then Some (n - 55)
         else None)"

text \<open>
  \<^verbatim>\<open>getu4\<close>: the value of a \<^verbatim>\<open>\uXXXX\<close> escape at the head of the text, or nothing
  (the library returns \<open>-1\<close>).
\<close>

fun getu4 :: "string \<Rightarrow> nat option" where
  "getu4 (b # u # h1 # h2 # h3 # h4 # rest) =
     (if b = CHR 0x5C \<and> u = CHR ''u'' then
        (case (hexval h1, hexval h2, hexval h3, hexval h4) of
           (Some x1, Some x2, Some x3, Some x4) \<Rightarrow> Some (((x1 * 16 + x2) * 16 + x3) * 16 + x4)
         | _ \<Rightarrow> None)
      else None)"
| "getu4 _ = None"

definition IsSurrogate :: "nat \<Rightarrow> bool" where
  "IsSurrogate r \<longleftrightarrow> 0xD800 \<le> r \<and> r < 0xE000"

text \<open>\<^verbatim>\<open>utf16.DecodeRune\<close> of a pair, the second half possibly missing.\<close>

definition utf16_DecodeRune :: "nat \<Rightarrow> nat option \<Rightarrow> nat" where
  "utf16_DecodeRune r1 r2 =
     (case r2 of
        None \<Rightarrow> RuneError
      | Some r2' \<Rightarrow>
          if 0xD800 \<le> r1 \<and> r1 < 0xDC00 \<and> 0xDC00 \<le> r2' \<and> r2' < 0xE000
          then (r1 - 0xD800) * 1024 + (r2' - 0xDC00) + 0x10000
          else RuneError)"

text \<open>
  The text after an opening quote: \<open>unquote b s\<close> reads up to the closing quote and
  returns the bytes of the string (appended to the buffer \<open>b\<close>) and the text after the
  quote. It joins what the scanner accepts (the escapes
  \<^verbatim>\<open>\" \\ \/ \b \f \n \r \t \uXXXX\<close>, no byte below 0x20) with what
  \<^verbatim>\<open>unquoteBytes\<close> produces.
\<close>

function unquote :: "string \<Rightarrow> string \<Rightarrow> (string \<times> string) option" where
  "unquote b [] = None"
| "unquote b (c # cs) =
     (if c = CHR 0x22 then Some (b, cs)
      else if c = CHR 0x5C then
        (case cs of
           [] \<Rightarrow> None
         | e # es \<Rightarrow>
             if e = CHR 0x22 \<or> e = CHR 0x5C \<or> e = CHR ''/'' then unquote (b @ [e]) es
             else if e = CHR ''b'' then unquote (b @ [CHR 0x08]) es
             else if e = CHR ''f'' then unquote (b @ [CHR 0x0C]) es
             else if e = CHR ''n'' then unquote (b @ [CHR 0x0A]) es
             else if e = CHR ''r'' then unquote (b @ [CHR 0x0D]) es
             else if e = CHR ''t'' then unquote (b @ [CHR 0x09]) es
             else if e = CHR ''u'' then
               (case getu4 (c # cs) of
                  None \<Rightarrow> None
                | Some rr \<Rightarrow>
                    if IsSurrogate rr then
                      (let dec = utf16_DecodeRune rr (getu4 (drop 4 es))
                       in if dec \<noteq> RuneError
                          then unquote (b @ EncodeRune dec) (drop 10 es)
                          else unquote (b @ EncodeRune RuneError) (drop 4 es))
                    else unquote (b @ EncodeRune rr) (drop 4 es))
             else None)
      else if (of_char c :: nat) < 0x20 then None
      else if (of_char c :: nat) < 0x80 then unquote (b @ [c]) cs
      else
        unquote (b @ EncodeRune (fst (DecodeRune (c # cs))))
          (drop (snd (DecodeRune (c # cs))) (c # cs)))"
  by pat_completeness auto
termination
proof (relation "measure (\<lambda>(b, s). length s)")
  fix b :: string and c :: char and cs :: string
  show "((b @ EncodeRune (fst (DecodeRune (c # cs))),
          drop (snd (DecodeRune (c # cs))) (c # cs)), b, c # cs)
        \<in> measure (\<lambda>(b, s). length s)"
    using DecodeRune_size_pos [of c cs] by simp
qed auto

subsection \<open>Values\<close>

definition is_space :: "char \<Rightarrow> bool" where
  "is_space c \<longleftrightarrow> c = CHR '' '' \<or> c = CHR 0x09 \<or> c = CHR 0x0D \<or> c = CHR 0x0A"

definition skip_ws :: "string \<Rightarrow> string" where
  "skip_ws = dropWhile is_space"

definition is_digit :: "char \<Rightarrow> bool" where
  "is_digit c \<longleftrightarrow> 48 \<le> (of_char c :: nat) \<and> (of_char c :: nat) \<le> 57"

text \<open>
  Numbers: an optional minus, \<^verbatim>\<open>0\<close> or a digit string without leading zero, an
  optional fraction, an optional exponent. Each function returns the text after the
  part it reads, or nothing when the number is malformed.
\<close>

definition scan_exp :: "string \<Rightarrow> string option" where
  "scan_exp s =
     (case s of
        [] \<Rightarrow> Some s
      | c # cs \<Rightarrow>
          if c = CHR ''e'' \<or> c = CHR ''E'' then
            (let t = (case cs of [] \<Rightarrow> cs
                      | d # ds \<Rightarrow> if d = CHR ''+'' \<or> d = CHR ''-'' then ds else cs)
             in case t of [] \<Rightarrow> None
                | d # ds \<Rightarrow> if is_digit d then Some (dropWhile is_digit ds) else None)
          else Some s)"

definition scan_frac :: "string \<Rightarrow> string option" where
  "scan_frac s =
     (case s of
        [] \<Rightarrow> Some s
      | c # cs \<Rightarrow>
          if c = CHR ''.'' then
            (case cs of [] \<Rightarrow> None
             | d # ds \<Rightarrow> if is_digit d then scan_exp (dropWhile is_digit ds) else None)
          else scan_exp s)"

definition scan_number :: "string \<Rightarrow> string option" where
  "scan_number s =
     (let t = (case s of [] \<Rightarrow> s | c # cs \<Rightarrow> if c = CHR ''-'' then cs else s)
      in case t of [] \<Rightarrow> None
         | d # ds \<Rightarrow>
             if d = CHR ''0'' then scan_frac ds
             else if is_digit d then scan_frac (dropWhile is_digit ds)
             else None)"

text \<open>The literals \<^verbatim>\<open>true\<close>, \<^verbatim>\<open>false\<close> and \<^verbatim>\<open>null\<close>.\<close>

definition scan_literal :: "string \<Rightarrow> string \<Rightarrow> string option" where
  "scan_literal lit s =
     (if take (length lit) s = lit then Some (drop (length lit) s) else None)"

datatype jvalue =
    JNull
  | JBool bool
  | JNumber
  | JString string
  | JArray "jvalue list"
  | JObject "(string \<times> jvalue) list"

text \<open>
  The outcome of reading a value: the value and the text after it, a syntax error, or
  the exhaustion of the fuel that bounds the recursion.
\<close>

datatype 'a parsed = Parsed 'a string | Invalid | OutOfFuel

fun then_parse :: "'a parsed \<Rightarrow> ('a \<Rightarrow> string \<Rightarrow> 'b parsed) \<Rightarrow> 'b parsed" where
  "then_parse (Parsed v r) f = f v r"
| "then_parse Invalid f = Invalid"
| "then_parse OutOfFuel f = OutOfFuel"

text \<open>
  \<open>parse_value\<close> reads a value at the head of a text without leading white space;
  \<open>parse_elements\<close> reads the elements of a non-empty array up to its closing bracket,
  \<open>parse_members\<close> the members of a non-empty object up to its closing brace. Every
  call takes one unit of fuel.
\<close>

fun parse_value :: "nat \<Rightarrow> string \<Rightarrow> jvalue parsed"
  and parse_elements :: "nat \<Rightarrow> string \<Rightarrow> jvalue list parsed"
  and parse_members :: "nat \<Rightarrow> string \<Rightarrow> (string \<times> jvalue) list parsed" where
  "parse_value 0 s = OutOfFuel"
| "parse_value (Suc n) [] = Invalid"
| "parse_value (Suc n) (c # cs) =
     (if c = CHR ''{'' then
        (case skip_ws cs of
           [] \<Rightarrow> Invalid
         | d # ds \<Rightarrow>
             if d = CHR ''}'' then Parsed (JObject []) ds
             else then_parse (parse_members n (d # ds)) (\<lambda>kvs r. Parsed (JObject kvs) r))
      else if c = CHR ''['' then
        (case skip_ws cs of
           [] \<Rightarrow> Invalid
         | d # ds \<Rightarrow>
             if d = CHR '']'' then Parsed (JArray []) ds
             else then_parse (parse_elements n (d # ds)) (\<lambda>vs r. Parsed (JArray vs) r))
      else if c = CHR 0x22 then
        (case unquote [] cs of None \<Rightarrow> Invalid | Some (str, r) \<Rightarrow> Parsed (JString str) r)
      else if c = CHR ''-'' \<or> is_digit c then
        (case scan_number (c # cs) of None \<Rightarrow> Invalid | Some r \<Rightarrow> Parsed JNumber r)
      else if c = CHR ''t'' then
        (case scan_literal ''true'' (c # cs) of
           None \<Rightarrow> Invalid | Some r \<Rightarrow> Parsed (JBool True) r)
      else if c = CHR ''f'' then
        (case scan_literal ''false'' (c # cs) of
           None \<Rightarrow> Invalid | Some r \<Rightarrow> Parsed (JBool False) r)
      else if c = CHR ''n'' then
        (case scan_literal ''null'' (c # cs) of None \<Rightarrow> Invalid | Some r \<Rightarrow> Parsed JNull r)
      else Invalid)"
| "parse_elements 0 s = OutOfFuel"
| "parse_elements (Suc n) s =
     then_parse (parse_value n s) (\<lambda>v r.
       case skip_ws r of
         [] \<Rightarrow> Invalid
       | d # ds \<Rightarrow>
           if d = CHR '','' then
             then_parse (parse_elements n (skip_ws ds)) (\<lambda>vs r'. Parsed (v # vs) r')
           else if d = CHR '']'' then Parsed [v] ds
           else Invalid)"
| "parse_members 0 s = OutOfFuel"
| "parse_members (Suc n) [] = Invalid"
| "parse_members (Suc n) (q # cs) =
     (if q = CHR 0x22 then
        (case unquote [] cs of
           None \<Rightarrow> Invalid
         | Some (k, r) \<Rightarrow>
             (case skip_ws r of
                [] \<Rightarrow> Invalid
              | col # r1 \<Rightarrow>
                  if col = CHR '':'' then
                    then_parse (parse_value n (skip_ws r1)) (\<lambda>v r2.
                      case skip_ws r2 of
                        [] \<Rightarrow> Invalid
                      | d # ds \<Rightarrow>
                          if d = CHR '','' then
                            then_parse (parse_members n (skip_ws ds))
                              (\<lambda>kvs r3. Parsed ((k, v) # kvs) r3)
                          else if d = CHR ''}'' then Parsed [(k, v)] ds
                          else Invalid)
                  else Invalid))
      else Invalid)"

text \<open>
  A JSON text is one value between optional white space. Every call of the parser
  that returns has read at least one character, and a value hands its text to the
  parser of elements or members only after an opening bracket; twice the length of the
  text is therefore fuel enough (\<open>json_parse_fuel\<close> below), and \<open>OutOfFuel\<close> is
  never the outcome.
\<close>

definition json_parse :: "string \<Rightarrow> jvalue parsed" where
  "json_parse s =
     then_parse (parse_value (Suc (length s + length s)) (skip_ws s))
       (\<lambda>v r. if skip_ws r = [] then Parsed v [] else Invalid)"

subsection \<open>Decoding into workflowData\<close>

text \<open>
  \<^verbatim>\<open>workflowData\<close> describes the state of the workflow and travels between workflow
  instances. \<^verbatim>\<open>ModeType\<close> and \<^verbatim>\<open>ModKey\<close> are string types. The JSON names of the
  fields are \<^verbatim>\<open>keyword\<close>, \<^verbatim>\<open>mode\<close>, \<^verbatim>\<open>mod\<close> and \<^verbatim>\<open>data\<close>, all with
  \<^verbatim>\<open>omitempty\<close>.
\<close>

type_synonym ModKey = string
type_synonym ModeType = string

definition ModeDo :: ModeType where "ModeDo = ''do''"
definition ModeTell :: ModeType where "ModeTell = ''tell''"
definition ModeBack :: ModeType where "ModeBack = ''back''"

record workflowData =
  Keyword :: string
  Mode :: ModeType
  Mod :: ModKey
  Data :: string

definition zero_workflowData :: workflowData where
  "zero_workflowData = \<lparr>Keyword = [], Mode = [], Mod = [], Data = []\<rparr>"

text \<open>
  The errors of the decoder: a syntax error, found before anything is stored, or the
  first JSON value that does not fit its target (the kind of the value, and the field;
  the empty field name stands for the struct itself).
\<close>

datatype json_error = SyntaxError | UnmarshalTypeError string string

definition kind_of :: "jvalue \<Rightarrow> string" where
  "kind_of v =
     (case v of
        JNull \<Rightarrow> ''null''
      | JBool _ \<Rightarrow> ''bool''
      | JNumber \<Rightarrow> ''number''
      | JString _ \<Rightarrow> ''string''
      | JArray _ \<Rightarrow> ''array''
      | JObject _ \<Rightarrow> ''object'')"

text \<open>
  A key names a field when it equals the field's JSON name or, failing that, when it
  matches one under the library's case folding: ASCII letters match in either case and
  the Kelvin sign U+212A (bytes E2 84 AA) matches \<^verbatim>\<open>k\<close>. The first argument of
  \<open>equalFold\<close> is the field name, which consists of lower-case letters.
\<close>

definition to_upper :: "char \<Rightarrow> char" where
  "to_upper c =
     (if 97 \<le> (of_char c :: nat) \<and> (of_char c :: nat) \<le> 122
      then char_of ((of_char c :: nat) - 32) else c)"

fun equalFold :: "string \<Rightarrow> string \<Rightarrow> bool" where
  "equalFold [] t = (t = [])"
| "equalFold (sb # s) [] = False"
| "equalFold (sb # s) (tb # t) =
     (if (of_char tb :: nat) < 0x80 then to_upper sb = to_upper tb \<and> equalFold s t
      else sb = CHR ''k'' \<and> tb = byte 0xE2 \<and> take 2 t = [byte 0x84, byte 0xAA]
           \<and> equalFold s (drop 2 t))"

definition field_names :: "string list" where
  "field_names = [''keyword'', ''mode'', ''mod'', ''data'']"

definition find_field :: "string \<Rightarrow> string option" where
  "find_field key =
     (case find (\<lambda>f. f = key) field_names of
        Some f \<Rightarrow> Some f
      | None \<Rightarrow> find (\<lambda>f. equalFold f key) field_names)"

definition set_field :: "string \<Rightarrow> string \<Rightarrow> workflowData \<Rightarrow> workflowData" where
  "set_field f v d =
     (if f = ''keyword'' then d\<lparr>Keyword := v\<rparr>
      else if f = ''mode'' then d\<lparr>Mode := v\<rparr>
      else if f = ''mod'' then d\<lparr>Mod := v\<rparr>
      else if f = ''data'' then d\<lparr>Data := v\<rparr>
      else d)"

definition saveError :: "json_error option \<Rightarrow> json_error \<Rightarrow> json_error option" where
  "saveError saved e = (case saved of None \<Rightarrow> Some e | Some e0 \<Rightarrow> Some e0)"

text \<open>
  One member of the object: an unknown key is skipped, a string is stored, \<^verbatim>\<open>null\<close>
  leaves the field as it is, any other value records a type error (the first one is
  kept) and decoding goes on.
\<close>

definition store_member ::
  "json_error option \<times> workflowData \<Rightarrow> string \<times> jvalue \<Rightarrow> json_error option \<times> workflowData" where
  "store_member st kv =
     (case (st, kv) of
        ((saved, d), (k, v)) \<Rightarrow>
          (case find_field k of
             None \<Rightarrow> (saved, d)
           | Some f \<Rightarrow>
               (case v of
                  JString x \<Rightarrow> (saved, set_field f x d)
                | JNull \<Rightarrow> (saved, d)
                | _ \<Rightarrow> (saveError saved (UnmarshalTypeError (kind_of v) f), d))))"

text \<open>
  \<^verbatim>\<open>json.Unmarshal(text, &d)\<close>: the error (or nil) and the struct afterwards. The
  text is checked as a whole first, so a syntax error leaves the struct untouched; an
  object is stored member by member into the fields the struct already has; \<^verbatim>\<open>null\<close>
  is accepted and changes nothing; any other value is a type error.
\<close>

definition Unmarshal :: "string \<Rightarrow> workflowData \<Rightarrow> json_error option \<times> workflowData" where
  "Unmarshal text d =
     (case json_parse text of
        Parsed v r \<Rightarrow>
          (case v of
             JObject kvs \<Rightarrow> foldl store_member (None, d) kvs
           | JNull \<Rightarrow> (None, d)
           | _ \<Rightarrow> (Some (UnmarshalTypeError (kind_of v) []), d))
      | Invalid \<Rightarrow> (Some SyntaxError, d)
      | OutOfFuel \<Rightarrow> (Some SyntaxError, d))"

section \<open>Commands and items\<close>

text \<open>
  An \<^verbatim>\<open>error\<close> of \<^verbatim>\<open>Run\<close> is a decoding error or an error made from a message
  (\<^verbatim>\<open>fmt.Errorf\<close>, or whatever a command returns).
\<close>

datatype error = JSONError json_error | ErrorString string

typedecl ItemMod

text \<open>
  Modelled from the spec: the types \<^verbatim>\<open>ItemArg\<close> and \<^verbatim>\<open>Item\<close> and the method
  \<^verbatim>\<open>AddMod\<close>, which \<^verbatim>\<open>workflow.go\<close> uses and does not declare. An item has a
  title, a subtitle, an autocomplete string, an argument payload, per-modifier overrides
  and the envelope it carries; the records hold the fields \<^verbatim>\<open>workflow.go\<close> reads or
  writes. \<^verbatim>\<open>AddMod\<close> binds a modifier key to its override.
\<close>

record ItemArg =
  aKeyword :: string

record Item =
  Title :: string
  Subtitle :: string
  Autocomplete :: string
  Arg :: "ItemArg option"
  mods :: "ModKey \<rightharpoonup> ItemMod"
  data :: workflowData

type_synonym Items = "Item list"

definition zero_Item :: Item where
  "zero_Item = \<lparr>Title = [], Subtitle = [], Autocomplete = [], Arg = None,
     mods = Map.empty, data = zero_workflowData\<rparr>"

definition AddMod :: "Item \<Rightarrow> ModKey \<Rightarrow> ItemMod \<Rightarrow> Item" where
  "AddMod item key m = item\<lparr>mods := (mods item)(key \<mapsto> m)\<rparr>"

text \<open>
  \<^verbatim>\<open>CommandDef\<close>. \<^verbatim>\<open>Mods\<close> is a map that may be nil; it is given by its entries in
  the order in which \<^verbatim>\<open>range\<close> visits them. \<^verbatim>\<open>Arg\<close> is a pointer that may be nil.
\<close>

record CommandDef =
  cKeyword :: string
  cDescription :: string
  cMods :: "(ModKey \<times> ItemMod) list option"
  cIsEnabled :: bool
  cArg :: "ItemArg option"

definition KeywordItem :: "CommandDef \<Rightarrow> Item" where
  "KeywordItem c =
     (let item = zero_Item\<lparr>Title := cKeyword c, Autocomplete := cKeyword c,
                   Subtitle := cDescription c\<rparr>;
          item = (case cArg c of
                    Some a \<Rightarrow> item\<lparr>Arg := Some a\<rparr>
                  | None \<Rightarrow> item\<lparr>Arg := Some \<lparr>aKeyword = cKeyword c\<rparr>\<rparr>)
      in case cMods c of
           Some ms \<Rightarrow> foldl (\<lambda>it (key, m). AddMod it key m) item ms
         | None \<Rightarrow> item)"

text \<open>
  A \<^verbatim>\<open>Command\<close> has a definition (\<^verbatim>\<open>About\<close>). It is a \<^verbatim>\<open>Filter\<close> when it has
  the method \<^verbatim>\<open>Items(arg, data)\<close>, an \<^verbatim>\<open>Action\<close> when it has the method
  \<^verbatim>\<open>Do(arg, data)\<close>; the fields \<open>Filter\<close> and \<open>Action\<close> hold these methods when
  the type assertions \<^verbatim>\<open>c.(Filter)\<close> and \<^verbatim>\<open>c.(Action)\<close> succeed. Both methods
  return a value and an error.
\<close>

record Command =
  About :: CommandDef
  Filter :: "(string \<Rightarrow> string \<Rightarrow> Item list \<times> error option) option"
  Action :: "(string \<Rightarrow> string \<Rightarrow> string \<times> error option) option"

text \<open>
  \<^verbatim>\<open>blockConfig\<close>, the argument of the loopback trigger.
\<close>

record blockVariables =
  Variables_Data :: string

record blockAlfredWorkflow =
  AlfredWorkflow_Arg :: string
  AlfredWorkflow_Variables :: blockVariables

record blockConfig =
  AlfredWorkflow :: blockAlfredWorkflow

definition zero_blockConfig :: blockConfig where
  "zero_blockConfig =
     \<lparr>AlfredWorkflow = \<lparr>AlfredWorkflow_Arg = [],
        AlfredWorkflow_Variables = \<lparr>Variables_Data = []\<rparr>\<rparr>\<rparr>"

section \<open>What a run does\<close>

text \<open>
  The debug log: one constructor for each \<^verbatim>\<open>dlog\<close> call of \<^verbatim>\<open>Run\<close>, with the
  operands of its format.
\<close>

datatype logmsg =
    LogParseFirst json_error
  | LogParseSecond json_error
  | LogGoingBack
  | LogLoopbackError error
  | LogLoopbackOutput string
  | LogSetKeyword string
  | LogTell workflowData string
  | LogSkipping string
  | LogAddingItems string
  | LogAddingMenuItem string
  | LogError error
  | LogChecking string string

text \<open>
  What a run does, in order: a line of the debug log, a script handed to
  \<^verbatim>\<open>RunScript\<close>, text written to standard output, the line that \<^verbatim>\<open>SendToAlfred\<close>
  writes (\<open>PrintItems items\<close> is \<^verbatim>\<open>fmt.Println(string(out))\<close> for the \<open>out\<close> that
  \<^verbatim>\<open>json.Marshal(items)\<close> gives), and the calls of the commands' methods:
  \<open>CallItems k arg d\<close> is the call \<^verbatim>\<open>Items(arg, d)\<close> of the Filter whose keyword is
  \<open>k\<close>, \<open>CallDo k arg d\<close> the call \<^verbatim>\<open>Do(arg, d)\<close> of the Action whose keyword is \<open>k\<close>.
\<close>

datatype event =
    Log logmsg
  | Script string
  | Print string
  | PrintItems "Item list"
  | CallItems string string string
  | CallDo string string string

text \<open>
  The collaborators of \<^verbatim>\<open>Run\<close> that \<^verbatim>\<open>workflow.go\<close> calls and does not define:
  \<^verbatim>\<open>SplitCmd\<close>, \<^verbatim>\<open>FuzzyMatches\<close>, \<^verbatim>\<open>FuzzySort\<close> (which reorders the slice it is
  given), \<^verbatim>\<open>RunScript\<close>, \<^verbatim>\<open>Stringify\<close> at its two argument types, the constant
  \<^verbatim>\<open>appName\<close>; and of the standard library \<^verbatim>\<open>strconv.Quote\<close>, \<^verbatim>\<open>fmt.Sprintf\<close>
  with a format and one string operand, and the text of a decoding error.
\<close>

record ext =
  SplitCmd :: "string \<Rightarrow> string \<times> string"
  FuzzyMatches :: "string \<Rightarrow> string \<Rightarrow> bool"
  FuzzySort :: "Item list \<Rightarrow> string \<Rightarrow> Item list"
  RunScript :: "string \<Rightarrow> string \<times> error option"
  Stringify_data :: "workflowData \<Rightarrow> string"
  Stringify_block :: "blockConfig \<Rightarrow> string"
  appName :: string
  Quote :: "string \<Rightarrow> string"
  Sprintf :: "string \<Rightarrow> string \<Rightarrow> string"
  json_error_text :: "json_error \<Rightarrow> string"

text \<open>The method \<^verbatim>\<open>Error()\<close>, which the verb \<^verbatim>\<open>%s\<close> prints for an error.\<close>

definition Error :: "ext \<Rightarrow> error \<Rightarrow> string" where
  "Error x e = (case e of JSONError j \<Rightarrow> json_error_text x j | ErrorString m \<Rightarrow> m)"

subsection \<open>SendToAlfred\<close>

text \<open>
  \<^verbatim>\<open>for _, item := range items { item.data = data }\<close>: the loop variable is a copy of
  the element, so the assignment changes the copy and the slice \<open>items\<close> (the first
  argument, the second being the elements still to visit) stays as it is.
\<close>

fun SendToAlfred_range :: "Item list \<Rightarrow> Item list \<Rightarrow> workflowData \<Rightarrow> Item list" where
  "SendToAlfred_range items [] d = items"
| "SendToAlfred_range items (item # rest) d =
     (let item = item\<lparr>data := d\<rparr> in SendToAlfred_range items rest d)"

definition SendToAlfred :: "Item list \<Rightarrow> workflowData \<Rightarrow> event list" where
  "SendToAlfred items d =
     (let items = SendToAlfred_range items items d in [PrintItems items])"

subsection \<open>Run: the arguments\<close>

text \<open>
  The positional arguments left by \<^verbatim>\<open>flag.Parse\<close>. The result is the values of
  \<^verbatim>\<open>arg\<close>, \<^verbatim>\<open>data\<close> and \<^verbatim>\<open>err\<close> after the first conditional, and what was
  logged. With one argument the decoding error is a variable of the inner scope
  (\<^verbatim>\<open>err :=\<close>); with more it is assigned to the \<^verbatim>\<open>err\<close> of \<^verbatim>\<open>Run\<close>.
\<close>

definition Run_args :: "string list \<Rightarrow> string \<times> workflowData \<times> error option \<times> event list" where
  "Run_args args =
     (if length args = 1 then
        (case Unmarshal (args ! 0) zero_workflowData of
           (Some e, d) \<Rightarrow> (args ! 0, d, None, [Log (LogParseFirst e)])
         | (None, d) \<Rightarrow> ([], d, None, []))
      else if length args > 1 then
        (if args ! 1 \<noteq> [] then
           (case Unmarshal (args ! 1) zero_workflowData of
              (Some e, d) \<Rightarrow> (args ! 0, d, Some (JSONError e), [Log (LogParseSecond e)])
            | (None, d) \<Rightarrow> (args ! 0, d, None, []))
         else (args ! 0, zero_workflowData, None, []))
      else ([], zero_workflowData,
            Some (ErrorString ''More than 2 args were provided; only 2 are accepted''), []))"

subsection \<open>Run: the final stage\<close>

definition loopback_script :: "ext \<Rightarrow> Workflow \<Rightarrow> workflowData \<Rightarrow> string" where
  "loopback_script x w d =
     (let block = zero_blockConfig
            \<lparr>AlfredWorkflow := (AlfredWorkflow zero_blockConfig)
               \<lparr>AlfredWorkflow_Variables := \<lparr>Variables_Data = Stringify_data x d\<rparr>\<rparr>\<rparr>
      in Sprintf x
           (''tell application \"'' @ appName x @ ''\" to run trigger \"start\" in workflow \"''
              @ bundleID w @ ''\" with argument %s'')
           (Quote x (Stringify_block x block)))"

text \<open>
  The block under \<^verbatim>\<open>if final\<close>: the data afterwards, what was done, and whether
  \<^verbatim>\<open>Run\<close> returned there.
\<close>

definition Run_final :: "ext \<Rightarrow> Workflow \<Rightarrow> workflowData \<Rightarrow> workflowData \<times> event list \<times> bool" where
  "Run_final x w d0 =
     (let d1 = (if Mode d0 = [] then d0\<lparr>Mode := ModeTell\<rparr> else d0);
          (d2, ev) = (if Mode d1 = ModeBack
                      then (snd (Unmarshal (Data d1) d1), [Log LogGoingBack])
                      else (d1, []))
      in if Mode d2 = ModeBack \<or> Mode d2 = ModeTell then
           (let script = loopback_script x w d2
            in case RunScript x script of
                 (out, Some e) \<Rightarrow> (d2, ev @ [Script script, Log (LogLoopbackError e)], True)
               | (out, None) \<Rightarrow> (d2, ev @ [Script script, Log (LogLoopbackOutput out)], True))
         else (d2, ev, False))"

subsection \<open>Run: the keyword\<close>

text \<open>\<^verbatim>\<open>strings.Trim(arg, " ")\<close>.\<close>

definition Trim_space :: "string \<Rightarrow> string" where
  "Trim_space s = rev (dropWhile (\<lambda>c. c = CHR '' '') (rev (dropWhile (\<lambda>c. c = CHR '' '') s)))"

text \<open>
  The default mode and the keyword: the data, \<^verbatim>\<open>keyword\<close>, \<^verbatim>\<open>prefix\<close> and
  \<^verbatim>\<open>arg\<close> afterwards, and what was logged.
\<close>

definition Run_keyword ::
  "ext \<Rightarrow> string \<Rightarrow> workflowData \<Rightarrow> workflowData \<times> string \<times> string \<times> string \<times> event list" where
  "Run_keyword x arg d0 =
     (let d = (if Mode d0 = [] then d0\<lparr>Mode := ModeTell\<rparr> else d0);
          keyword = Keyword d;
          ev = [Log (LogSetKeyword keyword)]
      in if keyword = [] then
           (case SplitCmd x arg of
              (cmd, rest) \<Rightarrow>
                (let keyword = cmd;
                     prefix = (if length arg > length keyword then keyword @ '' '' else keyword)
                 in (d, keyword, prefix, rest, ev)))
         else (d, keyword, [], Trim_space arg, ev))"

subsection \<open>Run: mode tell\<close>

text \<open>
  \<^verbatim>\<open>for _, i := range filterItems\<close>: the item is appended first; the prefix is then
  added to the autocomplete string of the loop variable, which is a copy.
\<close>

fun append_filterItems :: "string \<Rightarrow> Item list \<Rightarrow> Item list \<Rightarrow> Item list" where
  "append_filterItems prefix items [] = items"
| "append_filterItems prefix items (i # rest) =
     (let items = items @ [i];
          i = (if Autocomplete i \<noteq> [] then i\<lparr>Autocomplete := prefix @ Autocomplete i\<rparr> else i)
      in append_filterItems prefix items rest)"

text \<open>
  The loop over the commands, on the state \<open>(items, err, events)\<close>. The error that
  \<^verbatim>\<open>Items\<close> returns is assigned to \<^verbatim>\<open>err\<close> whether it is nil or not, and the loop
  goes on.
\<close>

fun tell_loop ::
  "ext \<Rightarrow> workflowData \<Rightarrow> string \<Rightarrow> string \<Rightarrow> string \<Rightarrow> Command list \<Rightarrow>
     Item list \<times> error option \<times> event list \<Rightarrow> Item list \<times> error option \<times> event list" where
  "tell_loop x d arg keyword prefix [] st = st"
| "tell_loop x d arg keyword prefix (c # cs) (items, err, ev) =
     (let def = About c
      in if \<not> cIsEnabled def then
           tell_loop x d arg keyword prefix cs (items, err, ev @ [Log (LogSkipping (cKeyword def))])
         else if Keyword d \<noteq> [] then
           (case Filter c of
              Some f \<Rightarrow>
                if cKeyword def = Keyword d then
                  (let ev = ev @ [Log (LogAddingItems (cKeyword def)),
                                  CallItems (cKeyword def) arg (Data d)]
                   in case f arg (Data d) of
                        (filterItems, None) \<Rightarrow>
                          tell_loop x d arg keyword prefix cs
                            (append_filterItems prefix items filterItems, None, ev)
                      | (filterItems, Some e) \<Rightarrow>
                          tell_loop x d arg keyword prefix cs (items, Some e, ev))
                else tell_loop x d arg keyword prefix cs (items, err, ev)
            | None \<Rightarrow> tell_loop x d arg keyword prefix cs (items, err, ev))
         else if FuzzyMatches x (cKeyword def) keyword then
           (if Filter c \<noteq> None \<or> cArg def \<noteq> None then
              tell_loop x d arg keyword prefix cs
                (items @ [KeywordItem def], err, ev @ [Log (LogAddingMenuItem (cKeyword def))])
            else tell_loop x d arg keyword prefix cs (items, err, ev))
         else tell_loop x d arg keyword prefix cs (items, err, ev))"

definition Run_tell ::
  "ext \<Rightarrow> workflowData \<Rightarrow> string \<Rightarrow> string \<Rightarrow> string \<Rightarrow> error option \<Rightarrow> Command list \<Rightarrow>
     event list" where
  "Run_tell x d arg keyword prefix err commands =
     (let (items, err, ev) =
            (if err = None then
               (let (items, err, ev) =
                      tell_loop x d arg keyword prefix commands ([], None, [Log (LogTell d arg)]);
                    items = (if arg \<noteq> [] then FuzzySort x items arg else items)
                in (items, err, ev))
             else ([], err, []));
          (items, ev) =
            (case err of
               Some e \<Rightarrow>
                 (items @ [zero_Item\<lparr>Title := ''Error: '' @ Error x e\<rparr>], ev @ [Log (LogError e)])
             | None \<Rightarrow>
                 if length items = 0 then (items @ [zero_Item\<lparr>Title := ''No results''\<rparr>], ev)
                 else (items, ev))
      in ev @ SendToAlfred items d)"

subsection \<open>Run: mode do\<close>

text \<open>
  The loop that looks for the action: the first enabled command that is an Action and
  whose keyword is \<^verbatim>\<open>keyword\<close> (its keyword and its method \<^verbatim>\<open>Do\<close>), and what was
  logged.
\<close>

fun find_action ::
  "string \<Rightarrow> Command list \<Rightarrow>
     (string \<times> (string \<Rightarrow> string \<Rightarrow> string \<times> error option)) option \<times> event list" where
  "find_action keyword [] = (None, [])"
| "find_action keyword (c # cs) =
     (let def = About c
      in if \<not> cIsEnabled def then find_action keyword cs
         else
           (case Action c of
              Some a \<Rightarrow>
                if cKeyword def = keyword
                then (Some (cKeyword def, a), [Log (LogChecking (cKeyword (About c)) keyword)])
                else (case find_action keyword cs of
                        (r, ev) \<Rightarrow> (r, Log (LogChecking (cKeyword (About c)) keyword) # ev))
            | None \<Rightarrow> find_action keyword cs))"

definition Run_do ::
  "ext \<Rightarrow> workflowData \<Rightarrow> string \<Rightarrow> string \<Rightarrow> error option \<Rightarrow> Command list \<Rightarrow> event list" where
  "Run_do x d arg keyword err commands =
     (let (output, err, ev) =
            (if err = None then
               (let ev0 = (if Mod d = []
                           then [Script ''tell application \"System Events\" to key code 53'']
                           else [])
                in case find_action keyword commands of
                     (None, ev1) \<Rightarrow>
                       ([], Some (ErrorString (''No valid command in '' @ [CHR 0x27] @ arg @ [CHR 0x27])),
                        ev0 @ ev1)
                   | (Some (k, do), ev1) \<Rightarrow>
                       (case do arg (Data d) of
                          (out, e) \<Rightarrow> (out, e, ev0 @ ev1 @ [CallDo k arg (Data d)])))
             else ([], err, []));
          output = (case err of Some e \<Rightarrow> ''Error: '' @ Error x e | None \<Rightarrow> output)
      in ev @ (if output \<noteq> [] then [Print (output @ [CHR 0x0A])] else []))"

subsection \<open>Run\<close>

text \<open>
  The \<^verbatim>\<open>switch\<close> on \<^verbatim>\<open>data.Mode\<close>. The default case prints the variable
  \<^verbatim>\<open>mode\<close>.
\<close>

definition Run_switch ::
  "ext \<Rightarrow> ModeType \<Rightarrow> workflowData \<Rightarrow> string \<Rightarrow> string \<Rightarrow> string \<Rightarrow> error option \<Rightarrow>
     Command list \<Rightarrow> event list" where
  "Run_switch x mode d arg keyword prefix err commands =
     (if Mode d = ''tell'' then Run_tell x d arg keyword prefix err commands
      else if Mode d = ''do'' then Run_do x d arg keyword err commands
      else [Print (''Invalid mode: '' @ [CHR 0x27] @ mode @ [CHR 0x27] @ [CHR 0x0A])])"

text \<open>
  \<^verbatim>\<open>Run\<close>, after \<^verbatim>\<open>flag.Parse\<close> has set \<^verbatim>\<open>final\<close> and left the positional
  arguments \<open>args\<close>. The variable \<^verbatim>\<open>mode\<close> is declared and never assigned; the
  variables \<^verbatim>\<open>keyword\<close> and \<^verbatim>\<open>prefix\<close> are empty unless the block under
  \<^verbatim>\<open>if err == nil\<close> sets them.
\<close>

definition Run :: "ext \<Rightarrow> Workflow \<Rightarrow> bool \<Rightarrow> string list \<Rightarrow> Command list \<Rightarrow> event list" where
  "Run x w final args commands =
     (let mode = [];
          (arg, d, err, ev0) = Run_args args
      in if err = None then
           (let (d, ev1, returned) = (if final then Run_final x w d else (d, [], False))
            in if returned then ev0 @ ev1
               else
                 (let (d, keyword, prefix, arg, ev2) = Run_keyword x arg d
                  in ev0 @ ev1 @ ev2 @ Run_switch x mode d arg keyword prefix err commands))
         else ev0 @ Run_switch x mode d arg [] [] err commands)"

section \<open>Encoding\<close>

text \<open>
  Modelled from the spec: \<^verbatim>\<open>Stringify\<close>, the serializer of the envelope, which
  \<^verbatim>\<open>workflow.go\<close> calls and does not define. It is taken to be the JSON text that
  \<^verbatim>\<open>json.Marshal\<close> of the standard library writes for the struct, which is what the
  field tags of \<^verbatim>\<open>workflowData\<close> and \<^verbatim>\<open>blockConfig\<close> address: the members in
  the order of the fields, an empty string field with \<^verbatim>\<open>omitempty\<close> left out, no
  white space.

  A string is written between quotes. A byte below 0x80 is written as it is, except the
  quote and the backslash (escaped with a backslash), the line feed, carriage return
  and tab (\<^verbatim>\<open>\n\<close>, \<^verbatim>\<open>\r\<close>, \<^verbatim>\<open>\t\<close>), and the other bytes below 0x20 and
  \<^verbatim>\<open><\<close>, \<^verbatim>\<open>>\<close>, \<^verbatim>\<open>&\<close> (\<^verbatim>\<open>\u00\<close> and two hexadecimal digits). From 0x80 on,
  a byte that starts no well-formed UTF-8 sequence is written as the escape of U+FFFD,
  the runes U+2028 and U+2029 as their escapes (a backslash, u and four digits), and any other rune by its
  bytes.
\<close>

definition hexdigit :: "nat \<Rightarrow> char" where
  "hexdigit n = ''0123456789abcdef'' ! n"

definition html_safe :: "char \<Rightarrow> bool" where
  "html_safe c \<longleftrightarrow>
     0x20 \<le> (of_char c :: nat) \<and> c \<noteq> CHR 0x22 \<and> c \<noteq> CHR 0x5C
     \<and> c \<noteq> CHR ''<'' \<and> c \<noteq> CHR ''>'' \<and> c \<noteq> CHR ''&''"

definition escape_byte :: "char \<Rightarrow> string" where
  "escape_byte c =
     (if c = CHR 0x5C \<or> c = CHR 0x22 then [CHR 0x5C, c]
      else if c = CHR 0x0A then [CHR 0x5C, CHR ''n'']
      else if c = CHR 0x0D then [CHR 0x5C, CHR ''r'']
      else if c = CHR 0x09 then [CHR 0x5C, CHR ''t'']
      else [CHR 0x5C, CHR ''u'', CHR ''0'', CHR ''0'',
            hexdigit ((of_char c :: nat) div 16), hexdigit ((of_char c :: nat) mod 16)])"

function encode_chars :: "string \<Rightarrow> string" where
  "encode_chars [] = []"
| "encode_chars (c # cs) =
     (if (of_char c :: nat) < 0x80 then
        (if html_safe c then [c] else escape_byte c) @ encode_chars cs
      else if fst (DecodeRune (c # cs)) = RuneError \<and> snd (DecodeRune (c # cs)) = 1 then
        [CHR 0x5C, CHR ''u'', CHR ''f'', CHR ''f'', CHR ''f'', CHR ''d''] @ encode_chars cs
      else if fst (DecodeRune (c # cs)) = 0x2028 \<or> fst (DecodeRune (c # cs)) = 0x2029 then
        [CHR 0x5C, CHR ''u'', CHR ''2'', CHR ''0'', CHR ''2'',
         hexdigit (fst (DecodeRune (c # cs)) mod 16)]
          @ encode_chars (drop (snd (DecodeRune (c # cs))) (c # cs))
      else take (snd (DecodeRune (c # cs))) (c # cs)
             @ encode_chars (drop (snd (DecodeRune (c # cs))) (c # cs)))"
  by pat_completeness auto
termination
proof (relation "measure length")
  fix c :: char and cs :: string
  show "(drop (snd (DecodeRune (c # cs))) (c # cs), c # cs) \<in> measure length"
    using DecodeRune_size_pos [of c cs] by simp
  then show "(drop (snd (DecodeRune (c # cs))) (c # cs), c # cs) \<in> measure length" .
qed auto

definition encode_string :: "string \<Rightarrow> string" where
  "encode_string s = [CHR 0x22] @ encode_chars s @ [CHR 0x22]"

fun encode_members :: "(string \<times> string) list \<Rightarrow> string" where
  "encode_members [] = []"
| "encode_members [(k, v)] = encode_string k @ '':'' @ encode_string v"
| "encode_members ((k, v) # kv # kvs) =
     encode_string k @ '':'' @ encode_string v @ '','' @ encode_members (kv # kvs)"

definition omitempty :: "(string \<times> string) list \<Rightarrow> (string \<times> string) list" where
  "omitempty kvs = filter (\<lambda>(k, v). v \<noteq> []) kvs"

definition Marshal_workflowData :: "workflowData \<Rightarrow> string" where
  "Marshal_workflowData d =
     ''{'' @ encode_members (omitempty [(''keyword'', Keyword d), (''mode'', Mode d),
                                        (''mod'', Mod d), (''data'', Data d)]) @ ''}''"

definition Marshal_blockConfig :: "blockConfig \<Rightarrow> string" where
  "Marshal_blockConfig b =
     ''{\"alfredworkflow\":{\"arg\":'' @ encode_string (AlfredWorkflow_Arg (AlfredWorkflow b))
       @ '',\"variables\":{''
       @ encode_members
           (omitempty [(''data'', Variables_Data (AlfredWorkflow_Variables (AlfredWorkflow b)))])
       @ ''}}}''"

text \<open>\<^verbatim>\<open>utf8.ValidString\<close>: no byte decodes as an error of width one.\<close>

function ValidString :: "string \<Rightarrow> bool" where
  "ValidString [] = True"
| "ValidString (c # cs) =
     (\<not> (fst (DecodeRune (c # cs)) = RuneError \<and> snd (DecodeRune (c # cs)) = 1)
      \<and> ValidString (drop (snd (DecodeRune (c # cs))) (c # cs)))"
  by pat_completeness auto
termination
proof (relation "measure length")
  fix c :: char and cs :: string
  show "(drop (snd (DecodeRune (c # cs))) (c # cs), c # cs) \<in> measure length"
    using DecodeRune_size_pos [of c cs] by simp
qed auto

section \<open>Sample collaborators\<close>

text \<open>
  Modelled from the spec: \<^verbatim>\<open>SplitCmd\<close>, which \<^verbatim>\<open>workflow.go\<close> calls and does not
  define. The keyword is the run of characters up to, not including, the first space;
  the remainder is everything after that space, or empty if there is no space or
  nothing follows it.
\<close>

definition SplitCmd_spec :: "string \<Rightarrow> string \<times> string" where
  "SplitCmd_spec s =
     (takeWhile (\<lambda>c. c \<noteq> CHR '' '') s, drop 1 (dropWhile (\<lambda>c. c \<noteq> CHR '' '') s))"

text \<open>
  A set of collaborators on which \<^verbatim>\<open>Run\<close> can be evaluated: the modelled
  \<^verbatim>\<open>SplitCmd\<close> and \<^verbatim>\<open>Stringify\<close>; a fuzzy match that holds when the characters
  of the query occur in the candidate in order; a ranking that keeps the order; a script
  runner that succeeds with no output; the application name \<^verbatim>\<open>Alfred\<close>; and, for the
  library functions, a quoting between double quotes, the replacement of the first
  \<^verbatim>\<open>%s\<close> by the operand, and short error texts.
\<close>

fun occurs_in_order :: "string \<Rightarrow> string \<Rightarrow> bool" where
  "occurs_in_order [] cand = True"
| "occurs_in_order (q # qs) [] = False"
| "occurs_in_order (q # qs) (c # cs) =
     (if q = c then occurs_in_order qs cs else occurs_in_order (q # qs) cs)"

fun replace_verb :: "string \<Rightarrow> string \<Rightarrow> string" where
  "replace_verb [] v = []"
| "replace_verb [c] v = [c]"
| "replace_verb (a # b # r) v =
     (if a = CHR ''%'' \<and> b = CHR ''s'' then v @ r else a # replace_verb (b # r) v)"

definition sample_ext :: ext where
  "sample_ext =
     \<lparr>SplitCmd = SplitCmd_spec,
      FuzzyMatches = (\<lambda>cand query. occurs_in_order query cand),
      FuzzySort = (\<lambda>items arg. items),
      RunScript = (\<lambda>script. ([], None)),
      Stringify_data = Marshal_workflowData,
      Stringify_block = Marshal_blockConfig,
      appName = ''Alfred'',
      Quote = (\<lambda>s. [CHR 0x22] @ s @ [CHR 0x22]),
      Sprintf = replace_verb,
      json_error_text =
        (\<lambda>e. case e of
               SyntaxError \<Rightarrow> ''invalid JSON''
             | UnmarshalTypeError v f \<Rightarrow> ''json: cannot unmarshal '' @ v)\<rparr>"

definition sample_Workflow :: Workflow where
  "sample_Workflow = \<lparr>name = ''wf'', bundleID = ''com.example.wf'', cacheDir = ''/tmp/c'',
     dataDir = ''/tmp/d''\<rparr>"

text \<open>Sample commands: a Filter that returns two items and an Action.\<close>

definition sample_items :: "Item list" where
  "sample_items = [zero_Item\<lparr>Title := ''one'', Autocomplete := ''one''\<rparr>,
                   zero_Item\<lparr>Title := ''two'', Autocomplete := ''two''\<rparr>]"

definition sample_Filter :: Command where
  "sample_Filter =
     \<lparr>About = \<lparr>cKeyword = ''find'', cDescription = ''Find things'', cMods = None,
                cIsEnabled = True, cArg = None\<rparr>,
      Filter = Some (\<lambda>arg d. (sample_items, None)),
      Action = None\<rparr>"

definition sample_Action :: Command where
  "sample_Action =
     \<lparr>About = \<lparr>cKeyword = ''open'', cDescription = ''Open'', cMods = None,
                cIsEnabled = True, cArg = None\<rparr>,
      Filter = None,
      Action = Some (\<lambda>arg d. (''opened'', None))\<rparr>"

section \<open>Reading a trace\<close>



fun is_log :: "event \<Rightarrow> bool" where
  "is_log (Log m) = True"
| "is_log e = False"

section \<open>Properties\<close>

subsection \<open>Auxiliary facts\<close>

lemmas json_defs = Unmarshal_def json_parse_def skip_ws_def is_space_def is_digit_def
  scan_number_def scan_frac_def scan_exp_def scan_literal_def store_member_def find_field_def
  field_names_def set_field_def saveError_def kind_of_def zero_workflowData_def

lemmas sample_defs = sample_ext_def sample_Workflow_def SplitCmd_spec_def sample_items_def
  sample_Filter_def sample_Action_def

lemma SendToAlfred_range_id: "SendToAlfred_range items rest d = items"
  by (induction rest) (simp_all add: Let_def)

lemmas run_defs = Run_def Run_final_def Run_keyword_def Run_switch_def Run_tell_def
  Run_do_def SendToAlfred_def loopback_script_def zero_Item_def zero_blockConfig_def
  Trim_space_def KeywordItem_def AddMod_def Error_def ModeTell_def ModeBack_def ModeDo_def Let_def
  zero_workflowData_def sample_defs SendToAlfred_range_id

lemma Unmarshal_find:
  "Unmarshal ''find'' zero_workflowData = (Some SyntaxError, zero_workflowData)"
  by (simp add: json_defs)

lemma Unmarshal_notjson:
  "Unmarshal ''notjson'' zero_workflowData = (Some SyntaxError, zero_workflowData)"
  by (simp add: json_defs)

lemma Unmarshal_mode_do:
  "Unmarshal ''{\"mode\":\"do\"}'' zero_workflowData =
     (None, zero_workflowData\<lparr>Mode := ''do''\<rparr>)"
  by (simp add: json_defs)

lemma Unmarshal_mode_foo:
  "Unmarshal ''{\"mode\":\"foo\"}'' zero_workflowData =
     (None, zero_workflowData\<lparr>Mode := ''foo''\<rparr>)"
  by (simp add: json_defs)

lemma Unmarshal_keyword_find:
  "Unmarshal ''{\"keyword\":\"find\"}'' zero_workflowData =
     (None, zero_workflowData\<lparr>Keyword := ''find''\<rparr>)"
  by (simp add: json_defs)

lemma Unmarshal_tell_number:
  "Unmarshal ''{\"mode\":\"tell\",\"keyword\":5}'' zero_workflowData =
     (Some (UnmarshalTypeError ''number'' ''keyword''), zero_workflowData\<lparr>Mode := ''tell''\<rparr>)"
  by (simp add: json_defs)

lemma Run_args_find_notjson:
  "Run_args [''find'', ''notjson''] =
     (''find'', zero_workflowData, Some (JSONError SyntaxError),
      [Log (LogParseSecond SyntaxError)])"
  by (simp add: Run_args_def Unmarshal_notjson)

lemma Run_args_find:
  "Run_args [''find''] = (''find'', zero_workflowData, None, [Log (LogParseFirst SyntaxError)])"
  by (simp add: Run_args_def Unmarshal_find)

lemma Run_args_mode_foo:
  "Run_args [''{\"mode\":\"foo\"}''] = ([], zero_workflowData\<lparr>Mode := ''foo''\<rparr>, None, [])"
  by (simp add: Run_args_def Unmarshal_mode_foo)

lemma Run_args_keyword_find:
  "Run_args [''{\"keyword\":\"find\"}''] =
     ([], zero_workflowData\<lparr>Keyword := ''find''\<rparr>, None, [])"
  by (simp add: Run_args_def Unmarshal_keyword_find)

lemma Run_args_do:
  "Run_args (a # ''{\"mode\":\"do\"}'' # rest) =
     (a, zero_workflowData\<lparr>Mode := ''do''\<rparr>, None, [])"
  by (simp add: Run_args_def Unmarshal_mode_do)

lemma Run_args_none:
  "Run_args [] = ([], zero_workflowData,
     Some (ErrorString ''More than 2 args were provided; only 2 are accepted''), [])"
  by (simp add: Run_args_def)

text \<open>Arguments after the second are never read.\<close>

lemma Run_args_more: "Run_args (a # b # rest) = Run_args [a, b]"
  by (simp add: Run_args_def split: prod.splits option.splits)

lemma Run_more_args: "Run x w final (a # b # rest) commands = Run x w final [a, b] commands"
  by (simp only: Run_def Run_args_more [of a b rest])

lemma Run_args_events: "Run_args args = (arg, d, err, ev0) \<Longrightarrow> list_all is_log ev0"
  by (auto simp: Run_args_def split: if_splits prod.splits option.splits)




lemma Unmarshal_do_opne:
  "Unmarshal ''{\"mode\":\"do\",\"keyword\":\"opne\"}'' zero_workflowData =
     (None, zero_workflowData\<lparr>Keyword := ''opne'', Mode := ''do''\<rparr>)"
  by (simp add: json_defs)

lemma Run_args_do_opne:
  "Run_args [''{\"mode\":\"do\",\"keyword\":\"opne\"}''] =
     ([], zero_workflowData\<lparr>Keyword := ''opne'', Mode := ''do''\<rparr>, None, [])"
  by (simp add: Run_args_def Unmarshal_do_opne)

subsection \<open>The arguments\<close>




text \<open>
  C2. The claim: with the single argument \<^verbatim>\<open>find\<close>, no data, and one enabled Filter
  of keyword \<^verbatim>\<open>find\<close> returning two items, the Filter is invoked and its two items
  are sent, their autocomplete strings prefixed by \<^verbatim>\<open>find \<close>. In the code a Filter is
  invoked only when the incoming data names a keyword; here it names none, so the
  keyword is split off the argument and the menu of matching commands is built. What
  holds: the Filter is not invoked; when \<^verbatim>\<open>FuzzyMatches("find", "find")\<close> holds, the
  single item made from the command's definition is sent, and the single item
  \<^verbatim>\<open>No results\<close> otherwise.
\<close>

theorem Run_find_menu:
  assumes "SplitCmd x ''find'' = (''find'', [])" and "cKeyword (About c) = ''find''"
    and "cIsEnabled (About c)" and "Filter c = Some f"
  shows "Run x w False [''find''] [c] =
           [Log (LogParseFirst SyntaxError), Log (LogSetKeyword []),
            Log (LogTell (zero_workflowData\<lparr>Mode := ''tell''\<rparr>) [])] @
           (if FuzzyMatches x ''find'' ''find''
            then [Log (LogAddingMenuItem ''find''), PrintItems [KeywordItem (About c)]]
            else [PrintItems [zero_Item\<lparr>Title := ''No results''\<rparr>]])"
  using assms
  by (simp add: Run_def Run_args_find Run_keyword_def Run_switch_def Run_tell_def SendToAlfred_def
      SendToAlfred_range_id Let_def ModeTell_def zero_workflowData_def)

theorem Run_find_menu_witness:
  "SplitCmd sample_ext ''find'' = (''find'', [])
   \<and> cKeyword (About sample_Filter) = ''find''
   \<and> cIsEnabled (About sample_Filter)
   \<and> Filter sample_Filter = Some (\<lambda>arg d. (sample_items, None))
   \<and> Run sample_ext sample_Workflow False [''find''] [sample_Filter] =
       [Log (LogParseFirst SyntaxError), Log (LogSetKeyword []),
        Log (LogTell (zero_workflowData\<lparr>Mode := ''tell''\<rparr>) []),
        Log (LogAddingMenuItem ''find''),
        PrintItems [zero_Item\<lparr>Title := ''find'', Subtitle := ''Find things'',
                      Autocomplete := ''find'', Arg := Some \<lparr>aKeyword = ''find''\<rparr>\<rparr>]]"
proof -
  have h1: "SplitCmd sample_ext ''find'' = (''find'', [])"
    by (simp add: sample_ext_def SplitCmd_spec_def)
  have h2: "cKeyword (About sample_Filter) = ''find''" by (simp add: sample_Filter_def)
  have h3: "cIsEnabled (About sample_Filter)" by (simp add: sample_Filter_def)
  have h4: "Filter sample_Filter = Some (\<lambda>arg d. (sample_items, None))"
    by (simp add: sample_Filter_def)
  show ?thesis
    using h1 h2 h3 h4 Run_find_menu [OF h1 h2 h3 h4, where w = sample_Workflow]
    by (simp add: sample_ext_def sample_Filter_def KeywordItem_def zero_Item_def Let_def)
qed

text \<open>
  At that input the trace has no call of \<^verbatim>\<open>Items\<close>, and what is sent is one menu
  item, not the two items of the Filter.
\<close>

theorem Run_find_counterexample:
  "Run sample_ext sample_Workflow False [''find''] [sample_Filter] =
     [Log (LogParseFirst SyntaxError), Log (LogSetKeyword []),
      Log (LogTell (zero_workflowData\<lparr>Mode := ''tell''\<rparr>) []),
      Log (LogAddingMenuItem ''find''),
      PrintItems [KeywordItem (About sample_Filter)]]
   \<and> [KeywordItem (About sample_Filter)] \<noteq> sample_items"
  by (simp add: Run_args_find run_defs)

text \<open>
  C3. The claim: when the parser reports a malformed invocation, the mode defaults to
  \<^verbatim>\<open>tell\<close> and a single item \<^verbatim>\<open>Error: <message>\<close> is sent. In the code the only
  malformed invocation is the one without positional arguments; the mode is given its
  default under \<^verbatim>\<open>if err == nil\<close> only, so the mode stays empty and the default case
  of the switch runs: one line is printed and no item is sent.
\<close>

theorem Run_no_args:
  "Run x w final [] commands = [Print (''Invalid mode: '' @ [CHR 0x27, CHR 0x27, CHR 0x0A])]"
  by (simp add: Run_args_none run_defs)

text \<open>
  C4. The claim: zero positional arguments, and three or more, set the error, and no
  command runs. In the code the second branch is taken whenever there is more than one
  argument, so three arguments are read as two: here the Action runs and nothing is
  reported.
\<close>

theorem Run_three_args:
  "Run sample_ext sample_Workflow False [''open'', ''{\"mode\":\"do\"}'', ''extra'']
     [sample_Action] =
     [Log (LogSetKeyword []),
      Script ''tell application \"System Events\" to key code 53'',
      Log (LogChecking ''open'' ''open''),
      CallDo ''open'' [] [],
      Print (''opened'' @ [CHR 0x0A])]"
  by (simp add: Run_args_do run_defs)

subsection \<open>The switch\<close>

text \<open>
  C5. The claim: for a mode that is neither \<^verbatim>\<open>tell\<close> nor \<^verbatim>\<open>do\<close> the dispatcher
  prints a line that names the mode. The code prints the variable \<^verbatim>\<open>mode\<close>, which
  is never assigned: for the data \<^verbatim>\<open>{"mode":"foo"}\<close> the line names the empty string.
\<close>

theorem Run_invalid_mode:
  "Run x w False [''{\"mode\":\"foo\"}''] commands =
     [Log (LogSetKeyword []), Print (''Invalid mode: '' @ [CHR 0x27, CHR 0x27, CHR 0x0A])]"
  by (cases "SplitCmd x []") (simp add: Run_args_mode_foo run_defs)

text \<open>
  C6. The claim: in mode \<^verbatim>\<open>do\<close>, when the keyword matches no enabled Action, the
  output is \<^verbatim>\<open>Error: No valid command in '<arg>'\<close> with the unresolved input for
  \<^verbatim>\<open><arg>\<close>. The code formats the message from the variable \<^verbatim>\<open>arg\<close> after the
  resolver has replaced it by the remainder. At the argument \<^verbatim>\<open>foo bar\<close> with the
  data \<^verbatim>\<open>{"mode":"do"}\<close> and no command, the line names \<^verbatim>\<open>bar\<close>, neither the input
  \<^verbatim>\<open>foo bar\<close> nor the keyword \<^verbatim>\<open>foo\<close>; at the single argument
  \<^verbatim>\<open>{"mode":"do","keyword":"opne"}\<close>, with an enabled Action of keyword \<^verbatim>\<open>open\<close>, it
  names the empty string, not the keyword \<^verbatim>\<open>opne\<close>.
\<close>

theorem Run_do_no_action_names_rest:
  "Run sample_ext sample_Workflow False [''foo bar'', ''{\"mode\":\"do\"}''] [] =
     [Log (LogSetKeyword []),
      Script ''tell application \"System Events\" to key code 53'',
      Print (''Error: No valid command in '' @ [CHR 0x27] @ ''bar'' @ [CHR 0x27, CHR 0x0A])]
   \<and> Run sample_ext sample_Workflow False [''{\"mode\":\"do\",\"keyword\":\"opne\"}'']
         [sample_Action] =
     [Log (LogSetKeyword ''opne''),
      Script ''tell application \"System Events\" to key code 53'',
      Log (LogChecking ''open'' ''opne''),
      Print (''Error: No valid command in '' @ [CHR 0x27, CHR 0x27, CHR 0x0A])]"
  by (simp add: Run_args_do Run_args_do_opne run_defs)

subsection \<open>The final stage\<close>

text \<open>
  C7. The claim: for every invocation with the flag \<^verbatim>\<open>-final\<close> and an envelope whose
  mode is empty, the loopback trigger is issued and the invocation ends. In the code the
  final stage lies under \<^verbatim>\<open>if err == nil\<close>: an invocation whose arguments are not
  read without error issues no trigger. What holds: for every invocation with the flag
  \<^verbatim>\<open>-final\<close> and one or two positional arguments that are read without error into
  data with an empty mode: the mode becomes \<^verbatim>\<open>tell\<close>; the run consists of what
  reading the arguments logged, one script handed to \<^verbatim>\<open>RunScript\<close>, and one log line
  (the error of the script runner, or else its output), after which \<^verbatim>\<open>Run\<close>
  returns; so no command is called and nothing is written, whatever the script runner
  answers. The script is the trigger text formatted with the quoted \<^verbatim>\<open>Stringify\<close> of
  a \<^verbatim>\<open>blockConfig\<close> whose variable \<^verbatim>\<open>data\<close> is the \<^verbatim>\<open>Stringify\<close> of the data
  with mode \<^verbatim>\<open>tell\<close>.
\<close>

theorem Run_final_loopback:
  assumes "length args \<le> 2" and "Run_args args = (arg, d, None, ev0)" and "Mode d = []"
  shows "Run x w True args commands =
           ev0 @
           [Script (loopback_script x w (d\<lparr>Mode := ''tell''\<rparr>)),
            (case RunScript x (loopback_script x w (d\<lparr>Mode := ''tell''\<rparr>)) of
               (out, Some e) \<Rightarrow> Log (LogLoopbackError e)
             | (out, None) \<Rightarrow> Log (LogLoopbackOutput out))]
         \<and> list_all is_log ev0
         \<and> loopback_script x w (d\<lparr>Mode := ''tell''\<rparr>) =
             Sprintf x
               (''tell application \"'' @ appName x @ ''\" to run trigger \"start\" in workflow \"''
                  @ bundleID w @ ''\" with argument %s'')
               (Quote x (Stringify_block x
                  \<lparr>AlfredWorkflow = \<lparr>AlfredWorkflow_Arg = [],
                     AlfredWorkflow_Variables =
                       \<lparr>Variables_Data = Stringify_data x (d\<lparr>Mode := ''tell''\<rparr>)\<rparr>\<rparr>\<rparr>))"
proof -
  let ?s = "loopback_script x w (d\<lparr>Mode := ''tell''\<rparr>)"
  have run: "Run x w True args commands =
           ev0 @ [Script ?s,
            (case RunScript x ?s of
               (out, Some e) \<Rightarrow> Log (LogLoopbackError e)
             | (out, None) \<Rightarrow> Log (LogLoopbackOutput out))]"
    using assms(2,3)
    by (cases "RunScript x ?s"; cases "snd (RunScript x ?s)")
       (auto simp: Run_def Run_final_def Let_def ModeTell_def ModeBack_def)
  from assms(2) have ev0: "list_all is_log ev0" by (rule Run_args_events)
  have scr: "?s = Sprintf x
               (''tell application \"'' @ appName x @ ''\" to run trigger \"start\" in workflow \"''
                  @ bundleID w @ ''\" with argument %s'')
               (Quote x (Stringify_block x
                  \<lparr>AlfredWorkflow = \<lparr>AlfredWorkflow_Arg = [],
                     AlfredWorkflow_Variables =
                       \<lparr>Variables_Data = Stringify_data x (d\<lparr>Mode := ''tell''\<rparr>)\<rparr>\<rparr>\<rparr>))"
    by (simp add: loopback_script_def zero_blockConfig_def Let_def)
  from run ev0 scr show ?thesis by blast
qed

theorem Run_final_loopback_witness:
  "length [''{\"keyword\":\"find\"}''] = 1
   \<and> Run_args [''{\"keyword\":\"find\"}''] =
       ([], zero_workflowData\<lparr>Keyword := ''find''\<rparr>, None, [])
   \<and> Mode (zero_workflowData\<lparr>Keyword := ''find''\<rparr>) = []
   \<and> Run sample_ext sample_Workflow True [''{\"keyword\":\"find\"}''] [sample_Filter] =
       [Script (loopback_script sample_ext sample_Workflow
                  \<lparr>Keyword = ''find'', Mode = ''tell'', Mod = [], Data = []\<rparr>),
        Log (LogLoopbackOutput [])]"
proof -
  let ?d = "zero_workflowData\<lparr>Keyword := ''find''\<rparr>"
  have h0: "length [''{\"keyword\":\"find\"}''] \<le> 2" by simp
  note h1 = Run_args_keyword_find
  have h2: "Mode ?d = []" by (simp add: zero_workflowData_def)
  have rs: "RunScript sample_ext s = ([], None)" for s by (simp add: sample_ext_def)
  show ?thesis
    using h1 h2 Run_final_loopback [OF h0 h1 h2, where x = sample_ext and w = sample_Workflow
        and commands = "[sample_Filter]"]
    by (simp add: rs zero_workflowData_def)
qed

text \<open>
  With the flag \<^verbatim>\<open>-final\<close> and no positional argument, and with the arguments
  \<^verbatim>\<open>find\<close> and \<^verbatim>\<open>notjson\<close>, the data is the empty data, whose mode is empty; no
  script is handed to the script runner.
\<close>

theorem Run_final_loopback_counterexample:
  "Run sample_ext sample_Workflow True [] [sample_Filter] =
     [Print (''Invalid mode: '' @ [CHR 0x27, CHR 0x27, CHR 0x0A])]
   \<and> Run sample_ext sample_Workflow True [''find'', ''notjson''] [sample_Filter] =
     [Log (LogParseSecond SyntaxError),
      Print (''Invalid mode: '' @ [CHR 0x27, CHR 0x27, CHR 0x0A])]"
  by (simp add: Run_args_none Run_args_find_notjson run_defs)

subsection \<open>Sending items\<close>

text \<open>
  C9. The claim: \<^verbatim>\<open>SendToAlfred\<close> attaches the current data to every item before the
  list is serialized. In the code the assignment \<^verbatim>\<open>item.data = data\<close> is made to the
  loop variable, a copy of the element: the list that is serialized is the list that was
  passed, whatever the data, each item with the \<^verbatim>\<open>data\<close> field it came with.
\<close>

theorem SendToAlfred_items_unchanged:
  "SendToAlfred items d = [PrintItems items]"
  by (simp add: SendToAlfred_def SendToAlfred_range_id)

subsection \<open>The parser\<close>

text \<open>
  Every call of the parser that returns a value has read at least one character, and
  the fuel that \<open>json_parse\<close> gives is never exhausted.
\<close>

lemma skip_ws_length: "length (skip_ws s) \<le> length s"
  by (simp add: skip_ws_def length_dropWhile_le)

lemma unquote_shorter: "unquote b s = Some (r, t) \<Longrightarrow> length t < length s"
proof (induction "length s" arbitrary: s b rule: less_induct)
  case less
  show ?case
  proof (cases s)
    case Nil
    with less.prems show ?thesis by simp
  next
    case (Cons c cs)
    have IH: "length s' \<le> length cs \<Longrightarrow> unquote b' s' = Some (r, t) \<Longrightarrow> length t < Suc (length cs)"
      for s' b'
    proof -
      assume l: "length s' \<le> length cs" and u: "unquote b' s' = Some (r, t)"
      from l have "length s' < length s" by (simp add: Cons)
      from less.hyps [OF this u] l show "length t < Suc (length cs)" by simp
    qed
    have dr: "length (drop (snd (DecodeRune (c # cs))) (c # cs)) \<le> length cs"
      using DecodeRune_size_pos [of c cs] by simp
    note IHd = IH [OF dr]
    from less.prems show ?thesis
      unfolding Cons
      by (auto split: if_splits list.splits option.splits simp: Let_def
          dest: IH [rotated] IHd)
  qed
qed


lemma scan_exp_length: "scan_exp s = Some t \<Longrightarrow> length t \<le> length s"
  by (auto simp: scan_exp_def Let_def split: list.splits if_splits
      intro: le_trans [OF length_dropWhile_le])

lemma scan_frac_length: "scan_frac s = Some t \<Longrightarrow> length t \<le> length s"
  by (auto simp: scan_frac_def split: list.splits if_splits
      dest!: scan_exp_length intro: le_trans [OF _ length_dropWhile_le] le_SucI)

lemma scan_number_shorter: "scan_number s = Some t \<Longrightarrow> length t < length s"
proof -
  assume a: "scan_number s = Some t"
  have dw: "length (dropWhile is_digit u) \<le> length u" for u
    by (rule length_dropWhile_le)
  from a show ?thesis
    apply (auto simp: scan_number_def Let_def split: list.splits if_splits
        dest!: scan_frac_length)
    subgoal for x21 x22 using dw [of x22] by simp
    subgoal for x21 x22 using dw [of x22] by simp
    done
qed

lemma scan_literal_shorter:
  "scan_literal lit s = Some t \<Longrightarrow> lit \<noteq> [] \<Longrightarrow> length t < length s"
proof -
  assume a: "scan_literal lit s = Some t" and n: "lit \<noteq> []"
  from a have tk: "take (length lit) s = lit" and t: "t = drop (length lit) s"
    by (auto simp: scan_literal_def split: if_splits)
  have "length lit \<le> length s"
    using arg_cong [OF tk, of length] by simp
  with n t show ?thesis by (cases lit) auto
qed

lemma then_parse_Parsed:
  "then_parse p f = Parsed v t \<Longrightarrow> \<exists>v' r. p = Parsed v' r \<and> f v' r = Parsed v t"
  by (cases p) simp_all

lemma skip_ws_Cons: "skip_ws cs = d # ds \<Longrightarrow> length ds < length cs"
  using skip_ws_length [of cs] by simp

lemma parse_shorter:
  "(\<forall>s v t. parse_value n s = Parsed v t \<longrightarrow> length t < length s)
   \<and> (\<forall>s vs t. parse_elements n s = Parsed vs t \<longrightarrow> length t < length s)
   \<and> (\<forall>s kvs t. parse_members n s = Parsed kvs t \<longrightarrow> length t < length s)"
proof (induction n)
  case 0
  show ?case by simp
next
  case (Suc n)
  then have IHv: "parse_value n s = Parsed v t \<Longrightarrow> length t < length s"
    and IHe: "parse_elements n s = Parsed vs t \<Longrightarrow> length t < length s"
    and IHm: "parse_members n s = Parsed kvs t \<Longrightarrow> length t < length s" for s v vs kvs t
    by blast+
  have IHv': "parse_value n (skip_ws u) = Parsed v t \<Longrightarrow> length t < length u"
    and IHe': "parse_elements n (skip_ws u) = Parsed vs t \<Longrightarrow> length t < length u"
    and IHm': "parse_members n (skip_ws u) = Parsed kvs t \<Longrightarrow> length t < length u"
    for u v vs kvs t
    using skip_ws_length [of u] by (auto dest!: IHv IHe IHm)
  have lits: "scan_literal ''true'' u = Some t \<Longrightarrow> length t < length u"
    "scan_literal ''false'' u = Some t \<Longrightarrow> length t < length u"
    "scan_literal ''null'' u = Some t \<Longrightarrow> length t < length u" for u t
    by (auto dest: scan_literal_shorter)
  have v: "length t < length s" if a: "parse_value (Suc n) s = Parsed v t" for s v t
  proof (cases s)
    case Nil
    with a show ?thesis by simp
  next
    case (Cons c cs)
    from a show ?thesis
      unfolding Cons
      by (auto split: if_splits list.splits option.splits
          dest!: then_parse_Parsed IHe IHm unquote_shorter scan_number_shorter lits skip_ws_Cons)
  qed
  have e: "length t < length s" if a: "parse_elements (Suc n) s = Parsed vs t" for s vs t
  proof -
    from a obtain v r where pv: "parse_value n s = Parsed v r"
      and rest: "(case skip_ws r of
         [] \<Rightarrow> Invalid
       | d # ds \<Rightarrow>
           if d = CHR '','' then
             then_parse (parse_elements n (skip_ws ds)) (\<lambda>vs r'. Parsed (v # vs) r')
           else if d = CHR '']'' then Parsed [v] ds
           else Invalid) = Parsed vs t"
      by (auto dest!: then_parse_Parsed)
    from pv have r: "length r < length s" by (rule IHv)
    from rest r show ?thesis
      by (auto split: list.splits if_splits dest!: then_parse_Parsed IHe' skip_ws_Cons)
  qed
  have m: "length t < length s" if a: "parse_members (Suc n) s = Parsed kvs t" for s kvs t
  proof (cases s)
    case Nil
    with a show ?thesis by simp
  next
    case (Cons q cs)
    from a show ?thesis
      unfolding Cons
      by (auto split: if_splits list.splits option.splits
          dest!: then_parse_Parsed IHv' IHm' unquote_shorter skip_ws_Cons)
  qed
  from v e m show ?case by blast
qed


lemma parse_value_shorter: "parse_value n s = Parsed v t \<Longrightarrow> length t < length s"
  using parse_shorter [of n] by blast

lemma then_parse_OutOfFuel:
  "then_parse p f = OutOfFuel \<longleftrightarrow> p = OutOfFuel \<or> (\<exists>v r. p = Parsed v r \<and> f v r = OutOfFuel)"
  by (cases p) simp_all

lemma parse_fuel:
  "(\<forall>s. 2 * length s < n \<longrightarrow> parse_value n s \<noteq> OutOfFuel)
   \<and> (\<forall>s. 2 * length s + 1 < n \<longrightarrow> parse_elements n s \<noteq> OutOfFuel)
   \<and> (\<forall>s. 2 * length s < n \<longrightarrow> parse_members n s \<noteq> OutOfFuel)"
proof (induction n)
  case 0
  show ?case by simp
next
  case (Suc n)
  then have IHv: "2 * length s < n \<Longrightarrow> parse_value n s \<noteq> OutOfFuel"
    and IHe: "2 * length s + 1 < n \<Longrightarrow> parse_elements n s \<noteq> OutOfFuel"
    and IHm: "2 * length s < n \<Longrightarrow> parse_members n s \<noteq> OutOfFuel" for s
    by blast+
  have v: "parse_value (Suc n) s \<noteq> OutOfFuel" if a: "2 * length s < Suc n" for s
  proof (cases s)
    case Nil
    then show ?thesis by simp
  next
    case (Cons c cs)
    have m: "parse_members n (d # ds) \<noteq> OutOfFuel" if "skip_ws cs = d # ds" for d ds
    proof (rule IHm)
      from that skip_ws_length [of cs] have "Suc (length ds) \<le> length cs" by simp
      with a show "2 * length (d # ds) < n" by (simp add: Cons)
    qed
    have e: "parse_elements n (d # ds) \<noteq> OutOfFuel" if "skip_ws cs = d # ds" for d ds
    proof (rule IHe)
      from that skip_ws_length [of cs] have "Suc (length ds) \<le> length cs" by simp
      with a show "2 * length (d # ds) + 1 < n" by (simp add: Cons)
    qed
    consider "c = CHR ''{''" | "c = CHR ''[''" | "c \<noteq> CHR ''{''" "c \<noteq> CHR ''[''"
      by blast
    then show ?thesis
    proof cases
      case 1
      show ?thesis
      proof (cases "skip_ws cs")
        case Nil
        with 1 show ?thesis unfolding Cons by simp
      next
        case sk: (Cons d ds)
        with 1 m [OF sk] show ?thesis
          unfolding Cons by (simp add: then_parse_OutOfFuel)
      qed
    next
      case 2
      show ?thesis
      proof (cases "skip_ws cs")
        case Nil
        with 2 show ?thesis unfolding Cons by simp
      next
        case sk: (Cons d ds)
        with 2 e [OF sk] show ?thesis
          unfolding Cons by (simp add: then_parse_OutOfFuel)
      qed
    next
      case 3
      then show ?thesis
        unfolding Cons by (simp split: option.splits)
    qed
  qed
  have e: "parse_elements (Suc n) s \<noteq> OutOfFuel" if a: "2 * length s + 1 < Suc n" for s
  proof -
    have 1: "parse_value n s \<noteq> OutOfFuel" using a by (intro IHv) simp
    have 2: "parse_elements n (skip_ws ds) \<noteq> OutOfFuel"
      if pv: "parse_value n s = Parsed v r" and sk: "skip_ws r = d # ds" for v r d ds
    proof (rule IHe)
      from parse_value_shorter [OF pv] skip_ws_Cons [OF sk] skip_ws_length [of ds]
      have "length (skip_ws ds) + 2 \<le> length s" by simp
      with a show "2 * length (skip_ws ds) + 1 < n" by simp
    qed
    show ?thesis
    proof (cases "parse_value n s")
      case (Parsed v r)
      show ?thesis
      proof (cases "skip_ws r")
        case Nil
        with Parsed show ?thesis by simp
      next
        case (Cons d ds)
        with Parsed 2 [OF Parsed Cons] show ?thesis by (simp add: then_parse_OutOfFuel)
      qed
    next
      case Invalid
      then show ?thesis by simp
    next
      case OutOfFuel
      with 1 show ?thesis by simp
    qed
  qed
  have m: "parse_members (Suc n) s \<noteq> OutOfFuel" if a: "2 * length s < Suc n" for s
  proof (cases s)
    case Nil
    then show ?thesis by simp
  next
    case (Cons q cs)
    show ?thesis
    proof (cases "unquote [] cs")
      case None
      then show ?thesis unfolding Cons by simp
    next
      case (Some kr)
      obtain k r where kr: "kr = (k, r)" by (cases kr)
      note uq = Some [unfolded kr]
      show ?thesis
      proof (cases "skip_ws r")
        case Nil
        with uq show ?thesis unfolding Cons by simp
      next
        case sk1: (Cons col r1)
        have l1: "length (skip_ws r1) + 2 \<le> length cs"
          using unquote_shorter [OF uq] skip_ws_Cons [OF sk1] skip_ws_length [of r1] by simp
        have 1: "parse_value n (skip_ws r1) \<noteq> OutOfFuel"
          using a l1 by (intro IHv) (simp add: Cons)
        show ?thesis
        proof (cases "parse_value n (skip_ws r1)")
          case (Parsed v r2)
          show ?thesis
          proof (cases "skip_ws r2")
            case Nil
            with uq sk1 Parsed show ?thesis unfolding Cons by simp
          next
            case sk2: (Cons d ds)
            have "length (skip_ws ds) + 2 \<le> length cs"
              using l1 parse_value_shorter [OF Parsed] skip_ws_Cons [OF sk2]
                skip_ws_length [of ds] by simp
            with a have "parse_members n (skip_ws ds) \<noteq> OutOfFuel"
              by (intro IHm) (simp add: Cons)
            with uq sk1 Parsed sk2 show ?thesis
              unfolding Cons by (simp add: then_parse_OutOfFuel)
          qed
        next
          case Invalid
          with uq sk1 show ?thesis unfolding Cons by simp
        next
          case OutOfFuel
          with 1 show ?thesis by simp
        qed
      qed
    qed
  qed
  from v e m show ?case by blast
qed

lemma json_parse_fuel: "json_parse s \<noteq> OutOfFuel"
proof -
  have "2 * length (skip_ws s) < Suc (length s + length s)"
    using skip_ws_length [of s] by simp
  then have "parse_value (Suc (length s + length s)) (skip_ws s) \<noteq> OutOfFuel"
    using parse_fuel [of "Suc (length s + length s)"] by blast
  then show ?thesis
    by (simp add: json_parse_def then_parse_OutOfFuel)
qed

subsection \<open>The codec\<close>

text \<open>Arithmetic of the bytes of a UTF-8 sequence.\<close>

lemma mod_shift: "y < m \<Longrightarrow> (k * m + y) mod m = (y::nat)"
  by simp

lemma div_shift: "y < m \<Longrightarrow> (k * m + y) div m = (k::nat)"
  by simp

lemma in_block:
  fixes b :: nat
  assumes "k * m \<le> b" and "b < k * m + m"
  shows "b mod m = b - k * m" and "b div m = k"
proof -
  define y where "y = b - k * m"
  have y: "y < m" and b: "k * m + y = b" using assms by (simp_all add: y_def)
  from mod_shift [OF y, of k] show "b mod m = b - k * m" unfolding b by (simp only: y_def)
  from div_shift [OF y, of k] show "b div m = k" unfolding b .
qed

lemma cont_mod: "128 \<le> (b::nat) \<Longrightarrow> b \<le> 191 \<Longrightarrow> b mod 64 = b - 128"
  using in_block(1) [of 2 64 b] by simp

lemma lead2_mod: "192 \<le> (b::nat) \<Longrightarrow> b \<le> 223 \<Longrightarrow> b mod 32 = b - 192"
  using in_block(1) [of 6 32 b] by simp

lemma lead3_mod: "224 \<le> (b::nat) \<Longrightarrow> b \<le> 239 \<Longrightarrow> b mod 16 = b - 224"
  using in_block(1) [of 14 16 b] by simp

lemma lead4_mod: "240 \<le> (b::nat) \<Longrightarrow> b \<le> 247 \<Longrightarrow> b mod 8 = b - 240"
  using in_block(1) [of 30 8 b] by simp

text \<open>Digits in base 64.\<close>

lemma digits2:
  fixes x y :: nat
  assumes "y < 64"
  shows "(x * 64 + y) div 64 = x" and "(x * 64 + y) mod 64 = y"
  using assms by simp_all

lemma digits3:
  fixes x y z :: nat
  assumes "y < 64" and "z < 64"
  shows "(x * 4096 + y * 64 + z) div 4096 = x"
    and "((x * 4096 + y * 64 + z) div 64) mod 64 = y"
    and "(x * 4096 + y * 64 + z) mod 64 = z"
    and "(x * 4096 + y * 64 + z) div 64 = x * 64 + y"
proof -
  have e: "x * 4096 + y * 64 + z = (x * 64 + y) * 64 + z" by simp
  show 1: "(x * 4096 + y * 64 + z) div 64 = x * 64 + y"
    unfolding e using assms(2) by (rule div_shift)
  show "(x * 4096 + y * 64 + z) mod 64 = z"
    unfolding e using assms(2) by (rule mod_shift)
  show "((x * 4096 + y * 64 + z) div 64) mod 64 = y"
    unfolding 1 using assms(1) by (rule mod_shift)
  have "(x * 4096 + y * 64 + z) div (64 * 64) = ((x * 4096 + y * 64 + z) div 64) div 64"
    by (rule div_mult2_eq)
  also have "\<dots> = x" unfolding 1 using assms(1) by (rule div_shift)
  finally show "(x * 4096 + y * 64 + z) div 4096 = x" by simp
qed

lemma digits4:
  fixes x y z t :: nat
  assumes "y < 64" and "z < 64" and "t < 64"
  shows "(x * 262144 + y * 4096 + z * 64 + t) div 262144 = x"
    and "((x * 262144 + y * 4096 + z * 64 + t) div 4096) mod 64 = y"
    and "((x * 262144 + y * 4096 + z * 64 + t) div 64) mod 64 = z"
    and "(x * 262144 + y * 4096 + z * 64 + t) mod 64 = t"
proof -
  let ?r = "x * 262144 + y * 4096 + z * 64 + t"
  have e: "?r = (x * 4096 + y * 64 + z) * 64 + t" by simp
  have 1: "?r div 64 = x * 4096 + y * 64 + z"
    unfolding e using assms(3) by (rule div_shift)
  show "?r mod 64 = t" unfolding e using assms(3) by (rule mod_shift)
  show "(?r div 64) mod 64 = z" unfolding 1 using assms(1,2) by (rule digits3(3))
  have "?r div (64 * 64) = (?r div 64) div 64" by (rule div_mult2_eq)
  also have "\<dots> = x * 64 + y" unfolding 1 using assms(1,2) by (rule digits3(4))
  finally have 2: "?r div 4096 = x * 64 + y" by simp
  show "(?r div 4096) mod 64 = y" unfolding 2 using assms(1) by (rule mod_shift)
  have "?r div (4096 * 64) = (?r div 4096) div 64" by (rule div_mult2_eq)
  also have "\<dots> = x" unfolding 2 using assms(1) by (rule div_shift)
  finally show "?r div 262144 = x" by simp
qed


lemma EncodeRune_two:
  fixes p0 b1 :: nat
  assumes "194 \<le> p0" "p0 \<le> 223" "128 \<le> b1" "b1 \<le> 191"
  shows "EncodeRune ((p0 mod 32) * 64 + b1 mod 64) = [byte p0, byte b1]"
    and "128 \<le> (p0 mod 32) * 64 + b1 mod 64"
    and "(p0 mod 32) * 64 + b1 mod 64 \<le> 2047"
proof -
  define x y where "x = p0 - 192" and "y = b1 - 128"
  have x: "2 \<le> x" "x \<le> 31" "192 + x = p0" and y: "y < 64" "128 + y = b1"
    using assms by (simp_all add: x_def y_def)
  have r: "(p0 mod 32) * 64 + b1 mod 64 = x * 64 + y"
    using assms by (simp add: lead2_mod cont_mod x_def y_def)
  have lo: "128 \<le> x * 64 + y" using x by simp
  have hi: "x * 64 + y \<le> 2047" using x y by simp
  show "128 \<le> (p0 mod 32) * 64 + b1 mod 64" unfolding r by (rule lo)
  show "(p0 mod 32) * 64 + b1 mod 64 \<le> 2047" unfolding r by (rule hi)
  have "EncodeRune (x * 64 + y) = [byte (192 + (x * 64 + y) div 64), byte (128 + (x * 64 + y) mod 64)]"
    using lo hi by (simp add: EncodeRune_def)
  then show "EncodeRune ((p0 mod 32) * 64 + b1 mod 64) = [byte p0, byte b1]"
    unfolding r digits2 [OF y(1)] x(3) y(2) .
qed

lemma EncodeRune_three:
  fixes p0 b1 b2 :: nat
  assumes "224 \<le> p0" "p0 \<le> 239" "128 \<le> b1" "b1 \<le> 191"
    and "p0 = 224 \<longrightarrow> 160 \<le> b1" and "p0 = 237 \<longrightarrow> b1 \<le> 159"
    and "128 \<le> b2" "b2 \<le> 191"
  shows "EncodeRune ((p0 mod 16) * 4096 + (b1 mod 64) * 64 + b2 mod 64) = [byte p0, byte b1, byte b2]"
proof -
  define x y z where "x = p0 - 224" and "y = b1 - 128" and "z = b2 - 128"
  have x: "x \<le> 15" "224 + x = p0" and y: "y < 64" "128 + y = b1" and z: "z < 64" "128 + z = b2"
    using assms by (simp_all add: x_def y_def z_def)
  have x0: "x = 0 \<longrightarrow> 32 \<le> y" and x13: "x = 13 \<longrightarrow> y \<le> 31"
    using assms by (auto simp: x_def y_def)
  have r: "(p0 mod 16) * 4096 + (b1 mod 64) * 64 + b2 mod 64 = x * 4096 + y * 64 + z"
    using assms by (simp add: lead3_mod cont_mod x_def y_def z_def)
  have lo: "2048 \<le> x * 4096 + y * 64 + z" using x0 by (cases "x = 0") auto
  have hi: "x * 4096 + y * 64 + z \<le> 65535" using x y z by simp
  have ns: "\<not> (55296 \<le> x * 4096 + y * 64 + z \<and> x * 4096 + y * 64 + z \<le> 57343)"
  proof -
    consider "x \<le> 12" | "x = 13" | "14 \<le> x" by arith
    then show ?thesis
    proof cases
      case 1 then show ?thesis using y z by simp
    next
      case 2 then show ?thesis using x13 z by simp
    next
      case 3 then show ?thesis by simp
    qed
  qed
  have "EncodeRune (x * 4096 + y * 64 + z) =
      [byte (224 + (x * 4096 + y * 64 + z) div 4096),
       byte (128 + ((x * 4096 + y * 64 + z) div 64) mod 64),
       byte (128 + (x * 4096 + y * 64 + z) mod 64)]"
    using lo hi ns by (auto simp: EncodeRune_def)
  then show ?thesis
    unfolding r digits3(1,2,3) [OF y(1) z(1)] x(2) y(2) z(2) .
qed

lemma EncodeRune_four:
  fixes p0 b1 b2 b3 :: nat
  assumes "240 \<le> p0" "p0 \<le> 244" "128 \<le> b1" "b1 \<le> 191"
    and "p0 = 240 \<longrightarrow> 144 \<le> b1" and "p0 = 244 \<longrightarrow> b1 \<le> 143"
    and "128 \<le> b2" "b2 \<le> 191" "128 \<le> b3" "b3 \<le> 191"
  shows "EncodeRune ((p0 mod 8) * 262144 + (b1 mod 64) * 4096 + (b2 mod 64) * 64 + b3 mod 64)
           = [byte p0, byte b1, byte b2, byte b3]"
    and "65536 \<le> (p0 mod 8) * 262144 + (b1 mod 64) * 4096 + (b2 mod 64) * 64 + b3 mod 64"
proof -
  define x y z t where "x = p0 - 240" and "y = b1 - 128" and "z = b2 - 128" and "t = b3 - 128"
  have x: "x \<le> 4" "240 + x = p0" and y: "y < 64" "128 + y = b1" and z: "z < 64" "128 + z = b2"
    and t: "t < 64" "128 + t = b3"
    using assms by (simp_all add: x_def y_def z_def t_def)
  have x0: "x = 0 \<longrightarrow> 16 \<le> y" and x4: "x = 4 \<longrightarrow> y \<le> 15"
    using assms by (auto simp: x_def y_def)
  let ?r = "x * 262144 + y * 4096 + z * 64 + t"
  have r: "(p0 mod 8) * 262144 + (b1 mod 64) * 4096 + (b2 mod 64) * 64 + b3 mod 64 = ?r"
    using assms by (simp add: lead4_mod cont_mod x_def y_def z_def t_def)
  have lo: "65536 \<le> ?r" using x0 by (cases "x = 0") auto
  have hi: "?r \<le> 1114111"
  proof (cases "x = 4")
    case True then show ?thesis using x4 z t by simp
  next
    case False then have "x \<le> 3" using x by simp
    then show ?thesis using y z t by simp
  qed
  show "65536 \<le> (p0 mod 8) * 262144 + (b1 mod 64) * 4096 + (b2 mod 64) * 64 + b3 mod 64"
    unfolding r by (rule lo)
  have "EncodeRune ?r =
      [byte (240 + ?r div 262144), byte (128 + (?r div 4096) mod 64),
       byte (128 + (?r div 64) mod 64), byte (128 + ?r mod 64)]"
    using lo hi by (auto simp: EncodeRune_def)
  then show "EncodeRune ((p0 mod 8) * 262144 + (b1 mod 64) * 4096 + (b2 mod 64) * 64 + b3 mod 64)
           = [byte p0, byte b1, byte b2, byte b3]"
    unfolding r digits4 [OF y(1) z(1) t(1)] x(2) y(2) z(2) t(2) .
qed


lemma lead_info_two:
  "lead_info p0 = Some (2, lo, hi) \<Longrightarrow> 194 \<le> p0 \<and> p0 \<le> 223 \<and> lo = 128 \<and> hi = 191"
  by (auto simp: lead_info_def split: if_splits)

lemma lead_info_three:
  "lead_info p0 = Some (3, lo, hi) \<Longrightarrow>
     224 \<le> p0 \<and> p0 \<le> 239 \<and> 128 \<le> lo \<and> hi \<le> 191
     \<and> (p0 = 224 \<longrightarrow> lo = 160) \<and> (p0 = 237 \<longrightarrow> hi = 159)"
  by (auto simp: lead_info_def split: if_splits)

lemma lead_info_four:
  "lead_info p0 = Some (4, lo, hi) \<Longrightarrow>
     240 \<le> p0 \<and> p0 \<le> 244 \<and> 128 \<le> lo \<and> hi \<le> 191
     \<and> (p0 = 240 \<longrightarrow> lo = 144) \<and> (p0 = 244 \<longrightarrow> hi = 143)"
  by (auto simp: lead_info_def split: if_splits)

lemma lead_info_high: "lead_info p0 = Some t \<Longrightarrow> \<not> p0 < 128"
  by (auto simp: lead_info_def split: if_splits)

lemma DecodeRune_ascii: "(of_char c :: nat) < 128 \<Longrightarrow> DecodeRune (c # cs) = (of_char c, 1)"
  by (simp add: DecodeRune_def)

lemma DecodeRune_two:
  assumes "lead_info (of_char c) = Some (2, lo, hi)" and "lo \<le> of_char c1" and "of_char c1 \<le> hi"
  shows "DecodeRune (c # c1 # q) = ((of_char c mod 32) * 64 + of_char c1 mod 64, 2)"
  using assms lead_info_high [OF assms(1)] by (simp add: DecodeRune_def)

lemma DecodeRune_three:
  assumes "lead_info (of_char c) = Some (3, lo, hi)" and "lo \<le> of_char c1" and "of_char c1 \<le> hi"
    and "cont (of_char c2)"
  shows "DecodeRune (c # c1 # c2 # q) =
           ((of_char c mod 16) * 4096 + (of_char c1 mod 64) * 64 + of_char c2 mod 64, 3)"
  using assms lead_info_high [OF assms(1)] by (simp add: DecodeRune_def)

lemma DecodeRune_four:
  assumes "lead_info (of_char c) = Some (4, lo, hi)" and "lo \<le> of_char c1" and "of_char c1 \<le> hi"
    and "cont (of_char c2)" and "cont (of_char c3)"
  shows "DecodeRune (c # c1 # c2 # c3 # q) =
           ((of_char c mod 8) * 262144 + (of_char c1 mod 64) * 4096 + (of_char c2 mod 64) * 64
              + of_char c3 mod 64, 4)"
  using assms lead_info_high [OF assms(1)] by (simp add: DecodeRune_def)

lemma DecodeRune_valid_cases [consumes 2, case_names two three four]:
  assumes high: "\<not> (of_char c :: nat) < 128"
    and ok: "\<not> (fst (DecodeRune (c # cs)) = RuneError \<and> snd (DecodeRune (c # cs)) = 1)"
  obtains lo hi c1 q where "lead_info (of_char c) = Some (2, lo, hi)" "cs = c1 # q"
      "lo \<le> of_char c1" "of_char c1 \<le> hi"
  | lo hi c1 c2 q where "lead_info (of_char c) = Some (3, lo, hi)" "cs = c1 # c2 # q"
      "lo \<le> of_char c1" "of_char c1 \<le> hi" "cont (of_char c2)"
  | lo hi c1 c2 c3 q where "lead_info (of_char c) = Some (4, lo, hi)" "cs = c1 # c2 # c3 # q"
      "lo \<le> of_char c1" "of_char c1 \<le> hi" "cont (of_char c2)" "cont (of_char c3)"
proof (cases "lead_info (of_char c)")
  case None
  with high have "DecodeRune (c # cs) = (RuneError, 1)" by (simp add: DecodeRune_def)
  with ok show ?thesis by simp
next
  case (Some t)
  obtain sz lo hi where t: "t = (sz, lo, hi)" by (cases t)
  from Some t have sz: "sz = 2 \<or> sz = 3 \<or> sz = 4" by (auto dest: lead_info_size)
  note li = Some [unfolded t]
  show ?thesis
  proof (cases cs)
    case Nil
    then have "DecodeRune (c # cs) = (RuneError, 1)"
      using high li sz by (auto simp: DecodeRune_def Let_def)
    with ok show ?thesis by simp
  next
    case c1: (Cons c1 q1)
    show ?thesis
    proof (cases "lo \<le> of_char c1 \<and> of_char c1 \<le> hi")
      case False
      then have "DecodeRune (c # cs) = (RuneError, 1)"
      using high li sz c1 by (auto simp: DecodeRune_def Let_def)
    with ok show ?thesis by simp
    next
      case b1: True
      show ?thesis
      proof (cases "sz = 2")
        case True
        with li c1 b1 show ?thesis using that(1) by blast
      next
        case n2: False
        show ?thesis
        proof (cases q1)
          case Nil
          then have "DecodeRune (c # cs) = (RuneError, 1)"
      using high li sz n2 c1 b1 by (auto simp: DecodeRune_def Let_def)
    with ok show ?thesis by simp
        next
          case c2: (Cons c2 q2)
          show ?thesis
          proof (cases "cont (of_char c2)")
            case False
            then have "DecodeRune (c # cs) = (RuneError, 1)"
      using high li sz n2 c1 c2 b1 by (auto simp: DecodeRune_def Let_def)
    with ok show ?thesis by simp
          next
            case b2: True
            show ?thesis
            proof (cases "sz = 3")
              case True
              with li c1 c2 b1 b2 show ?thesis using that(2) by blast
            next
              case n3: False
              with sz n2 have s4: "sz = 4" by simp
              show ?thesis
              proof (cases q2)
                case Nil
                then have "DecodeRune (c # cs) = (RuneError, 1)"
      using high li s4 c1 c2 b1 b2 by (auto simp: DecodeRune_def Let_def)
    with ok show ?thesis by simp
              next
                case c3: (Cons c3 q3)
                show ?thesis
                proof (cases "cont (of_char c3)")
                  case False
                  then have "DecodeRune (c # cs) = (RuneError, 1)"
      using high li s4 c1 c2 c3 b1 b2 by (auto simp: DecodeRune_def Let_def)
    with ok show ?thesis by simp
                next
                  case True
                  with li s4 c1 c2 c3 b1 b2 show ?thesis using that(3) by blast
                qed
              qed
            qed
          qed
        qed
      qed
    qed
  qed
qed

text \<open>What the decoder reads back from what the encoder writes, rune by rune.\<close>

lemma hexval_hexdigit: "k < 16 \<Longrightarrow> hexval (hexdigit k) = Some k"
proof -
  have "list_all (\<lambda>k. hexval (hexdigit k) = Some k) [0..<16]"
    by code_simp
  moreover assume "k < 16"
  ultimately show ?thesis by (simp add: list_all_iff)
qed

lemma high_not_special:
  "\<not> (of_char c :: nat) < 128 \<Longrightarrow> c \<noteq> CHR 0x22 \<and> c \<noteq> CHR 0x5C \<and> \<not> (of_char c :: nat) < 32"
  by auto

lemma unquote_safe:
  assumes "(of_char c :: nat) < 128" and "html_safe c"
  shows "unquote b (c # t) = unquote (b @ [c]) t"
  using assms by (simp add: html_safe_def)

lemma getu4_byte:
  assumes "n < 128"
  shows "getu4 (CHR 0x5C # CHR ''u'' # CHR ''0'' # CHR ''0'' # hexdigit (n div 16)
           # hexdigit (n mod 16) # t) = Some n"
proof -
  have 1: "hexval (hexdigit (n div 16)) = Some (n div 16)"
    using assms by (intro hexval_hexdigit) simp
  have 2: "hexval (hexdigit (n mod 16)) = Some (n mod 16)"
    by (intro hexval_hexdigit) simp
  have 0: "hexval CHR ''0'' = Some 0" by (simp add: hexval_def)
  show ?thesis by (simp add: 0 1 2)
qed

lemma unquote_escape:
  assumes "(of_char c :: nat) < 128" and "\<not> html_safe c"
  shows "unquote b (escape_byte c @ t) = unquote (b @ [c]) t"
proof -
  consider "c = CHR 0x5C \<or> c = CHR 0x22" | "c = CHR 0x0A" | "c = CHR 0x0D" | "c = CHR 0x09"
    | "c \<noteq> CHR 0x5C" "c \<noteq> CHR 0x22" "c \<noteq> CHR 0x0A" "c \<noteq> CHR 0x0D" "c \<noteq> CHR 0x09"
    by blast
  then show ?thesis
  proof cases
    case 1 then show ?thesis by (auto simp: escape_byte_def)
  next
    case 2 then show ?thesis by (simp add: escape_byte_def)
  next
    case 3 then show ?thesis by (simp add: escape_byte_def)
  next
    case 4 then show ?thesis by (simp add: escape_byte_def)
  next
    case 5
    let ?n = "of_char c :: nat"
    have enc: "EncodeRune ?n = [c]" using assms(1) by (simp add: EncodeRune_def byte_def)
    have ns: "\<not> IsSurrogate ?n" using assms(1) by (simp add: IsSurrogate_def)
    have esc: "escape_byte c = [CHR 0x5C, CHR ''u'', CHR ''0'', CHR ''0'', hexdigit (?n div 16),
        hexdigit (?n mod 16)]"
      using 5 by (simp add: escape_byte_def)
    show ?thesis
      unfolding esc using getu4_byte [OF assms(1)] enc ns by simp
  qed
qed

lemma unquote_two:
  assumes "lead_info (of_char c) = Some (2, lo, hi)" and "lo \<le> of_char c1" and "of_char c1 \<le> hi"
  shows "unquote b (c # c1 # t) = unquote (b @ [c, c1]) t"
proof -
  note li = lead_info_two [OF assms(1)]
  have dec: "DecodeRune (c # c1 # t) = ((of_char c mod 32) * 64 + of_char c1 mod 64, 2)"
    using assms by (rule DecodeRune_two)
  have enc: "EncodeRune ((of_char c mod 32) * 64 + of_char c1 mod 64) = [c, c1]"
    using EncodeRune_two(1) [of "of_char c" "of_char c1"] li assms(2,3) by (simp add: byte_def)
  from li have "\<not> (of_char c :: nat) < 128" by simp
  from high_not_special [OF this] show ?thesis
    using li by (simp add: dec enc)
qed

lemma unquote_three:
  assumes "lead_info (of_char c) = Some (3, lo, hi)" and "lo \<le> of_char c1" and "of_char c1 \<le> hi"
    and "cont (of_char c2)"
  shows "unquote b (c # c1 # c2 # t) = unquote (b @ [c, c1, c2]) t"
    and "EncodeRune (fst (DecodeRune (c # c1 # c2 # t))) = [c, c1, c2]"
proof -
  note li = lead_info_three [OF assms(1)]
  let ?r = "(of_char c mod 16) * 4096 + (of_char c1 mod 64) * 64 + of_char c2 mod 64"
  have dec: "DecodeRune (c # c1 # c2 # t) = (?r, 3)"
    using assms by (rule DecodeRune_three)
  have i1: "(of_char c :: nat) = 224 \<longrightarrow> 160 \<le> (of_char c1 :: nat)"
    and i2: "(of_char c :: nat) = 237 \<longrightarrow> (of_char c1 :: nat) \<le> 159"
    and b1: "128 \<le> (of_char c1 :: nat)" "(of_char c1 :: nat) \<le> 191"
    using li assms(2,3) by auto
  have b2: "128 \<le> (of_char c2 :: nat)" "(of_char c2 :: nat) \<le> 191"
    using assms(4) by (simp_all add: cont_def)
  have p: "224 \<le> (of_char c :: nat)" "(of_char c :: nat) \<le> 239" using li by simp_all
  have enc: "EncodeRune ?r = [c, c1, c2]"
    using EncodeRune_three [OF p b1 i1 i2 b2] by (simp add: byte_def)
  show "EncodeRune (fst (DecodeRune (c # c1 # c2 # t))) = [c, c1, c2]" by (simp add: dec enc)
  from li have "\<not> (of_char c :: nat) < 128" by simp
  from high_not_special [OF this] show "unquote b (c # c1 # c2 # t) = unquote (b @ [c, c1, c2]) t"
    using li by (simp add: dec enc)
qed

lemma unquote_four:
  assumes "lead_info (of_char c) = Some (4, lo, hi)" and "lo \<le> of_char c1" and "of_char c1 \<le> hi"
    and "cont (of_char c2)" and "cont (of_char c3)"
  shows "unquote b (c # c1 # c2 # c3 # t) = unquote (b @ [c, c1, c2, c3]) t"
proof -
  note li = lead_info_four [OF assms(1)]
  let ?r = "(of_char c mod 8) * 262144 + (of_char c1 mod 64) * 4096 + (of_char c2 mod 64) * 64
              + of_char c3 mod 64"
  have dec: "DecodeRune (c # c1 # c2 # c3 # t) = (?r, 4)"
    using assms by (rule DecodeRune_four)
  have i1: "(of_char c :: nat) = 240 \<longrightarrow> 144 \<le> (of_char c1 :: nat)"
    and i2: "(of_char c :: nat) = 244 \<longrightarrow> (of_char c1 :: nat) \<le> 143"
    and b1: "128 \<le> (of_char c1 :: nat)" "(of_char c1 :: nat) \<le> 191"
    using li assms(2,3) by auto
  have b2: "128 \<le> (of_char c2 :: nat)" "(of_char c2 :: nat) \<le> 191"
    and b3: "128 \<le> (of_char c3 :: nat)" "(of_char c3 :: nat) \<le> 191"
    using assms(4,5) by (simp_all add: cont_def)
  have p: "240 \<le> (of_char c :: nat)" "(of_char c :: nat) \<le> 244" using li by simp_all
  have enc: "EncodeRune ?r = [c, c1, c2, c3]"
    using EncodeRune_four(1) [OF p b1 i1 i2 b2 b3] by (simp add: byte_def)
  from li have "\<not> (of_char c :: nat) < 128" by simp
  from high_not_special [OF this] show ?thesis
    using li by (simp add: dec enc)
qed

lemma unquote_line_sep:
  assumes "r = 0x2028 \<or> r = 0x2029"
  shows "unquote b ([CHR 0x5C, CHR ''u'', CHR ''2'', CHR ''0'', CHR ''2'', hexdigit (r mod 16)] @ t)
           = unquote (b @ EncodeRune r) t"
  using assms
  by (auto simp: hexdigit_def hexval_def IsSurrogate_def)

lemma step_ascii:
  assumes "(of_char c :: nat) < 128"
  shows "unquote b (encode_chars (c # cs) @ t) = unquote (b @ [c]) (encode_chars cs @ t)"
    and "ValidString (c # cs) = ValidString cs"
proof -
  show "unquote b (encode_chars (c # cs) @ t) = unquote (b @ [c]) (encode_chars cs @ t)"
  proof (cases "html_safe c")
    case True
    then show ?thesis using assms unquote_safe [OF assms True] by simp
  next
    case False
    then show ?thesis using assms unquote_escape [OF assms False] by simp
  qed
  show "ValidString (c # cs) = ValidString cs"
    using assms by (simp add: DecodeRune_ascii RuneError_def)
qed

lemma step_two:
  assumes "lead_info (of_char c) = Some (2, lo, hi)" and "lo \<le> of_char c1" and "of_char c1 \<le> hi"
  shows "unquote b (encode_chars (c # c1 # q) @ t) = unquote (b @ [c, c1]) (encode_chars q @ t)"
    and "ValidString (c # c1 # q) = ValidString q"
proof -
  note li = lead_info_two [OF assms(1)]
  let ?r = "((of_char c :: nat) mod 32) * 64 + of_char c1 mod 64"
  have dec: "DecodeRune (c # c1 # q) = (?r, 2)" using assms by (rule DecodeRune_two)
  have r: "?r \<le> 2047"
    using EncodeRune_two(3) [of "of_char c" "of_char c1"] li assms(2,3) by simp
  have high: "\<not> (of_char c :: nat) < 128" using li by simp
  have enc: "encode_chars (c # c1 # q) = c # c1 # encode_chars q"
    using high r by (simp add: dec RuneError_def)
  show "unquote b (encode_chars (c # c1 # q) @ t) = unquote (b @ [c, c1]) (encode_chars q @ t)"
    unfolding enc using unquote_two [OF assms] by simp
  show "ValidString (c # c1 # q) = ValidString q"
    by (simp add: dec)
qed

lemma step_three:
  assumes "lead_info (of_char c) = Some (3, lo, hi)" and "lo \<le> of_char c1" and "of_char c1 \<le> hi"
    and "cont (of_char c2)"
  shows "unquote b (encode_chars (c # c1 # c2 # q) @ t)
           = unquote (b @ [c, c1, c2]) (encode_chars q @ t)"
    and "ValidString (c # c1 # c2 # q) = ValidString q"
proof -
  note li = lead_info_three [OF assms(1)]
  let ?r = "((of_char c :: nat) mod 16) * 4096 + (of_char c1 mod 64) * 64 + of_char c2 mod 64"
  have dec: "DecodeRune (c # c1 # c2 # q) = (?r, 3)" using assms by (rule DecodeRune_three)
  have encr: "EncodeRune ?r = [c, c1, c2]"
    using unquote_three(2) [OF assms, of q] by (simp add: dec)
  have high: "\<not> (of_char c :: nat) < 128" using li by simp
  show "ValidString (c # c1 # c2 # q) = ValidString q"
    by (simp add: dec)
  show "unquote b (encode_chars (c # c1 # c2 # q) @ t)
           = unquote (b @ [c, c1, c2]) (encode_chars q @ t)"
  proof (cases "?r = 0x2028 \<or> ?r = 0x2029")
    case True
    have enc: "encode_chars (c # c1 # c2 # q) =
        [CHR 0x5C, CHR ''u'', CHR ''2'', CHR ''0'', CHR ''2'', hexdigit (?r mod 16)] @ encode_chars q"
      using high True by (auto simp: dec RuneError_def)
    show ?thesis
      unfolding enc using unquote_line_sep [OF True, of b "encode_chars q @ t"]
      by (simp add: encr)
  next
    case False
    have enc: "encode_chars (c # c1 # c2 # q) = c # c1 # c2 # encode_chars q"
      using high False by (simp add: dec)
    show ?thesis
      unfolding enc using unquote_three(1) [OF assms] by simp
  qed
qed

lemma step_four:
  assumes "lead_info (of_char c) = Some (4, lo, hi)" and "lo \<le> of_char c1" and "of_char c1 \<le> hi"
    and "cont (of_char c2)" and "cont (of_char c3)"
  shows "unquote b (encode_chars (c # c1 # c2 # c3 # q) @ t)
           = unquote (b @ [c, c1, c2, c3]) (encode_chars q @ t)"
    and "ValidString (c # c1 # c2 # c3 # q) = ValidString q"
proof -
  note li = lead_info_four [OF assms(1)]
  let ?r = "((of_char c :: nat) mod 8) * 262144 + (of_char c1 mod 64) * 4096 + (of_char c2 mod 64) * 64
              + of_char c3 mod 64"
  have dec: "DecodeRune (c # c1 # c2 # c3 # q) = (?r, 4)" using assms by (rule DecodeRune_four)
  have i1: "(of_char c :: nat) = 240 \<longrightarrow> 144 \<le> (of_char c1 :: nat)"
    and i2: "(of_char c :: nat) = 244 \<longrightarrow> (of_char c1 :: nat) \<le> 143"
    and b1: "128 \<le> (of_char c1 :: nat)" "(of_char c1 :: nat) \<le> 191"
    using li assms(2,3) by auto
  have b2: "128 \<le> (of_char c2 :: nat)" "(of_char c2 :: nat) \<le> 191"
    and b3: "128 \<le> (of_char c3 :: nat)" "(of_char c3 :: nat) \<le> 191"
    using assms(4,5) by (simp_all add: cont_def)
  have p: "240 \<le> (of_char c :: nat)" "(of_char c :: nat) \<le> 244" using li by simp_all
  have r: "65536 \<le> ?r" using EncodeRune_four(2) [OF p b1 i1 i2 b2 b3] .
  have high: "\<not> (of_char c :: nat) < 128" using li by simp
  have enc: "encode_chars (c # c1 # c2 # c3 # q) = c # c1 # c2 # c3 # encode_chars q"
    using high r by (simp add: dec RuneError_def)
  show "unquote b (encode_chars (c # c1 # c2 # c3 # q) @ t)
           = unquote (b @ [c, c1, c2, c3]) (encode_chars q @ t)"
    unfolding enc using unquote_four [OF assms] by simp
  show "ValidString (c # c1 # c2 # c3 # q) = ValidString q"
    by (simp add: dec)
qed

lemma unquote_encode_chars:
  "ValidString s \<Longrightarrow> unquote b (encode_chars s @ CHR 0x22 # rest) = Some (b @ s, rest)"
proof (induction "length s" arbitrary: s b rule: less_induct)
  case less
  show ?case
  proof (cases s)
    case Nil
    then show ?thesis by simp
  next
    case (Cons c cs)
    show ?thesis
    proof (cases "(of_char c :: nat) < 128")
      case True
      from less.prems have v: "ValidString cs" unfolding Cons step_ascii(2) [OF True] .
      have "unquote b (encode_chars s @ CHR 0x22 # rest)
              = unquote (b @ [c]) (encode_chars cs @ CHR 0x22 # rest)"
        unfolding Cons by (rule step_ascii(1) [OF True])
      also have "\<dots> = Some ((b @ [c]) @ cs, rest)"
        using v by (intro less.hyps) (simp add: Cons)
      finally show ?thesis by (simp add: Cons)
    next
      case False
      from less.prems
      have ok: "\<not> (fst (DecodeRune (c # cs)) = RuneError \<and> snd (DecodeRune (c # cs)) = 1)"
        by (simp add: Cons)
      from False ok show ?thesis
      proof (cases rule: DecodeRune_valid_cases)
        case (two lo hi c1 q)
        note st = step_two [OF two(1,3,4)]
        from less.prems have v: "ValidString q" unfolding Cons two(2) st(2) .
        have "unquote b (encode_chars s @ CHR 0x22 # rest)
                = unquote (b @ [c, c1]) (encode_chars q @ CHR 0x22 # rest)"
          unfolding Cons two(2) by (rule st(1))
        also have "\<dots> = Some ((b @ [c, c1]) @ q, rest)"
          using v by (intro less.hyps) (simp add: Cons two(2))
        finally show ?thesis by (simp add: Cons two(2))
      next
        case (three lo hi c1 c2 q)
        note st = step_three [OF three(1,3,4,5)]
        from less.prems have v: "ValidString q" unfolding Cons three(2) st(2) .
        have "unquote b (encode_chars s @ CHR 0x22 # rest)
                = unquote (b @ [c, c1, c2]) (encode_chars q @ CHR 0x22 # rest)"
          unfolding Cons three(2) by (rule st(1))
        also have "\<dots> = Some ((b @ [c, c1, c2]) @ q, rest)"
          using v by (intro less.hyps) (simp add: Cons three(2))
        finally show ?thesis by (simp add: Cons three(2))
      next
        case (four lo hi c1 c2 c3 q)
        note st = step_four [OF four(1,3,4,5,6)]
        from less.prems have v: "ValidString q" unfolding Cons four(2) st(2) .
        have "unquote b (encode_chars s @ CHR 0x22 # rest)
                = unquote (b @ [c, c1, c2, c3]) (encode_chars q @ CHR 0x22 # rest)"
          unfolding Cons four(2) by (rule st(1))
        also have "\<dots> = Some ((b @ [c, c1, c2, c3]) @ q, rest)"
          using v by (intro less.hyps) (simp add: Cons four(2))
        finally show ?thesis by (simp add: Cons four(2))
      qed
    qed
  qed
qed

text \<open>Objects whose values are strings.\<close>

lemma skip_ws_keep: "\<not> is_space c \<Longrightarrow> skip_ws (c # r) = c # r"
  by (simp add: skip_ws_def)

lemma encode_string_Cons: "encode_string v @ t = CHR 0x22 # (encode_chars v @ CHR 0x22 # t)"
  by (simp add: encode_string_def)

lemma parse_value_string:
  "ValidString v \<Longrightarrow> parse_value (Suc n) (encode_string v @ t) = Parsed (JString v) t"
  by (simp add: encode_string_Cons unquote_encode_chars [where b = "[]", simplified])

lemma encode_members_Cons:
  "kvs \<noteq> [] \<Longrightarrow> \<exists>r. encode_members kvs @ t = CHR 0x22 # r"
  by (cases kvs rule: encode_members.cases) (simp_all add: encode_string_def)

lemma skip_ws_members:
  "kvs \<noteq> [] \<Longrightarrow> skip_ws (encode_members kvs @ t) = encode_members kvs @ t"
  using encode_members_Cons [of kvs t] by (auto simp: skip_ws_keep is_space_def)

lemma parse_member:
  assumes "ValidString k" and "ValidString v"
  shows "parse_members (Suc (Suc n)) (encode_string k @ CHR '':'' # encode_string v @ CHR ''}'' # t)
           = Parsed [(k, JString v)] t"
    and "parse_members (Suc (Suc n)) (encode_string k @ CHR '':'' # encode_string v @ CHR '','' # t)
           = then_parse (parse_members (Suc n) (skip_ws t))
               (\<lambda>kvs r3. Parsed ((k, JString v) # kvs) r3)"
proof -
  have k: "unquote [] (encode_chars k @ CHR 0x22 # CHR '':'' # encode_string v @ d # t)
             = Some (k, CHR '':'' # encode_string v @ d # t)" for d
    using unquote_encode_chars [OF assms(1), of "[]"] by simp
  have v: "parse_value (Suc n) (encode_string v @ d # t) = Parsed (JString v) (d # t)" for d
    using assms(2) by (rule parse_value_string)
  have sv: "skip_ws (encode_string v @ d # t) = encode_string v @ d # t" for d
    by (simp add: encode_string_Cons skip_ws_keep is_space_def)
  have sc: "skip_ws (CHR '':'' # encode_string v @ d # t) = CHR '':'' # encode_string v @ d # t" for d
    by (simp add: skip_ws_keep is_space_def)
  have ek: "encode_string k @ CHR '':'' # encode_string v @ d # t
      = CHR 0x22 # (encode_chars k @ CHR 0x22 # CHR '':'' # encode_string v @ d # t)" for d
    by (rule encode_string_Cons)
  show "parse_members (Suc (Suc n)) (encode_string k @ CHR '':'' # encode_string v @ CHR ''}'' # t)
           = Parsed [(k, JString v)] t"
    unfolding ek by (simp add: k sc sv v skip_ws_keep is_space_def)
  show "parse_members (Suc (Suc n)) (encode_string k @ CHR '':'' # encode_string v @ CHR '','' # t)
           = then_parse (parse_members (Suc n) (skip_ws t))
               (\<lambda>kvs r3. Parsed ((k, JString v) # kvs) r3)"
    unfolding ek by (simp add: k sc sv v skip_ws_keep is_space_def)
qed

lemma parse_members_encode:
  assumes "kvs \<noteq> []" and "\<forall>kv \<in> set kvs. ValidString (fst kv) \<and> ValidString (snd kv)"
    and "length kvs < n"
  shows "parse_members n (encode_members kvs @ CHR ''}'' # rest)
           = Parsed (map (\<lambda>kv. (fst kv, JString (snd kv))) kvs) rest"
  using assms
proof (induction kvs arbitrary: n rule: encode_members.induct)
  case 1
  then show ?case by simp
next
  case (2 k v)
  from 2(3) obtain m where n: "n = Suc (Suc m)" by (cases n; cases "n - 1") auto
  from 2(2) show ?case unfolding n by (simp add: parse_member(1))
next
  case (3 k v kv kvs)
  from 3(4) obtain m where n: "n = Suc (Suc m)" by (cases n; cases "n - 1") auto
  have IH: "parse_members (Suc m) (encode_members (kv # kvs) @ CHR ''}'' # rest)
           = Parsed (map (\<lambda>kv. (fst kv, JString (snd kv))) (kv # kvs)) rest"
    using 3(3,4) by (intro 3(1)) (simp_all add: n)
  have sk: "skip_ws (encode_members (kv # kvs) @ CHR ''}'' # rest)
              = encode_members (kv # kvs) @ CHR ''}'' # rest"
    by (rule skip_ws_members) simp
  have "parse_members n (encode_members ((k, v) # kv # kvs) @ CHR ''}'' # rest)
      = parse_members (Suc (Suc m))
          (encode_string k @ CHR '':'' # encode_string v @ CHR '','' #
             (encode_members (kv # kvs) @ CHR ''}'' # rest))"
    by (simp add: n)
  also have "\<dots> = then_parse (parse_members (Suc m) (encode_members (kv # kvs) @ CHR ''}'' # rest))
               (\<lambda>kvs r3. Parsed ((k, JString v) # kvs) r3)"
    using 3(3) by (simp add: parse_member(2) sk)
  finally show ?case by (simp add: IH)
qed

lemma length_encode_members: "length kvs \<le> length (encode_members kvs)"
  by (induction kvs rule: encode_members.induct) (simp_all add: encode_string_def)

lemma parse_value_object:
  assumes "\<forall>kv \<in> set kvs. ValidString (fst kv) \<and> ValidString (snd kv)" and "length kvs < n"
  shows "parse_value (Suc n) (CHR ''{'' # encode_members kvs @ CHR ''}'' # rest)
           = Parsed (JObject (map (\<lambda>kv. (fst kv, JString (snd kv))) kvs)) rest"
proof (cases "kvs = []")
  case True
  then show ?thesis by (simp add: skip_ws_keep is_space_def)
next
  case False
  have pm: "parse_members n (encode_members kvs @ CHR ''}'' # rest)
      = Parsed (map (\<lambda>kv. (fst kv, JString (snd kv))) kvs) rest"
    using False assms by (rule parse_members_encode)
  obtain r where r: "encode_members kvs @ CHR ''}'' # rest = CHR 0x22 # r"
    using encode_members_Cons [OF False] by blast
  have sk: "skip_ws (encode_members kvs @ CHR ''}'' # rest) = encode_members kvs @ CHR ''}'' # rest"
    using False by (rule skip_ws_members)
  have "parse_value (Suc n) (CHR ''{'' # (encode_members kvs @ CHR ''}'' # rest))
      = then_parse (parse_members n (encode_members kvs @ CHR ''}'' # rest))
          (\<lambda>kvs r. Parsed (JObject kvs) r)"
    unfolding parse_value.simps sk unfolding r by simp
  then show ?thesis by (simp add: pm)
qed

lemma json_parse_object:
  assumes "\<forall>kv \<in> set kvs. ValidString (fst kv) \<and> ValidString (snd kv)"
  shows "json_parse (''{'' @ encode_members kvs @ ''}'')
           = Parsed (JObject (map (\<lambda>kv. (fst kv, JString (snd kv))) kvs)) []"
proof -
  have fuel: "length kvs < length (''{'' @ encode_members kvs @ ''}'')
      + length (''{'' @ encode_members kvs @ ''}'')"
    using length_encode_members [of kvs] by simp
  have sk: "skip_ws (''{'' @ encode_members kvs @ ''}'') = CHR ''{'' # encode_members kvs @ ''}''"
    by (simp add: skip_ws_keep is_space_def)
  show ?thesis
    unfolding json_parse_def sk parse_value_object [OF assms fuel]
    by (simp add: skip_ws_def)
qed

lemma store_members:
  "foldl store_member (None, zero_workflowData)
     (map (\<lambda>kv. (fst kv, JString (snd kv)))
        (omitempty [(''keyword'', k), (''mode'', m), (''mod'', mo), (''data'', da)]))
   = (None, \<lparr>Keyword = k, Mode = m, Mod = mo, Data = da\<rparr>)"
  by (simp add: omitempty_def store_member_def find_field_def field_names_def set_field_def
      zero_workflowData_def)

lemma ValidString_names:
  "ValidString ''keyword''" "ValidString ''mode''" "ValidString ''mod''" "ValidString ''data''"
  by (simp_all add: DecodeRune_ascii RuneError_def)

lemmas codec_defs = Unmarshal_def json_parse_def skip_ws_def is_space_def is_digit_def
  store_member_def find_field_def
  field_names_def set_field_def saveError_def kind_of_def zero_workflowData_def
  Marshal_workflowData_def omitempty_def encode_string_def html_safe_def escape_byte_def
  hexdigit_def hexval_def DecodeRune_def EncodeRune_def lead_info_def cont_def RuneError_def
  IsSurrogate_def utf16_DecodeRune_def byte_def Let_def

lemma replacement_bytes:
  "char_of (239::nat) = CHR 0xEF" "char_of (191::nat) = CHR 0xBF" "char_of (189::nat) = CHR 0xBD"
  using char_of_char [of "CHR 0xEF"] char_of_char [of "CHR 0xBF"] char_of_char [of "CHR 0xBD"]
  by simp_all

lemma valid_samples:
  "ValidString ''find''" "ValidString ''tell''" "ValidString []"
  "ValidString (''a<b \"c\" '' @ [CHR 0xC3, CHR 0xA9, CHR 0x0A])"
  by (simp_all add: DecodeRune_def lead_info_def RuneError_def)

text \<open>
  C8. The claim: serializing any envelope and deserializing the result gives the
  envelope back, field for field. The serializer writes a byte that is not part of a
  well-formed UTF-8 sequence as the escape of U+FFFD, so such a byte does not come
  back. What holds: for every envelope whose four strings are well-formed UTF-8
  (\<^verbatim>\<open>utf8.ValidString\<close>), decoding the serialized envelope into an empty envelope
  succeeds and gives the envelope itself.
\<close>

theorem Envelope_roundtrip:
  assumes "ValidString (Keyword d)" and "ValidString (Mode d)" and "ValidString (Mod d)"
    and "ValidString (Data d)"
  shows "Unmarshal (Marshal_workflowData d) zero_workflowData = (None, d)"
proof -
  let ?kvs = "omitempty [(''keyword'', Keyword d), (''mode'', Mode d), (''mod'', Mod d),
     (''data'', Data d)]"
  have valid: "\<forall>kv \<in> set ?kvs. ValidString (fst kv) \<and> ValidString (snd kv)"
    using assms ValidString_names by (auto simp: omitempty_def)
  have "json_parse (Marshal_workflowData d)
      = Parsed (JObject (map (\<lambda>kv. (fst kv, JString (snd kv))) ?kvs)) []"
    unfolding Marshal_workflowData_def using valid by (rule json_parse_object)
  then have "Unmarshal (Marshal_workflowData d) zero_workflowData
      = (None, \<lparr>Keyword = Keyword d, Mode = Mode d, Mod = Mod d, Data = Data d\<rparr>)"
    by (simp add: Unmarshal_def store_members)
  then show ?thesis by simp
qed

theorem Envelope_roundtrip_witness:
  "ValidString ''find'' \<and> ValidString ''tell'' \<and> ValidString []
   \<and> ValidString (''a<b \"c\" '' @ [CHR 0xC3, CHR 0xA9, CHR 0x0A])
   \<and> Unmarshal (Marshal_workflowData
         \<lparr>Keyword = ''find'', Mode = ''tell'', Mod = [],
          Data = ''a<b \"c\" '' @ [CHR 0xC3, CHR 0xA9, CHR 0x0A]\<rparr>) zero_workflowData
       = (None, \<lparr>Keyword = ''find'', Mode = ''tell'', Mod = [],
                 Data = ''a<b \"c\" '' @ [CHR 0xC3, CHR 0xA9, CHR 0x0A]\<rparr>)"
  using valid_samples
    Envelope_roundtrip [of "\<lparr>Keyword = ''find'', Mode = ''tell'', Mod = [],
          Data = ''a<b \"c\" '' @ [CHR 0xC3, CHR 0xA9, CHR 0x0A]\<rparr>"]
  by simp

text \<open>
  The envelope whose data is the single byte FF is serialized with the escape of
  U+FFFD for its data, which decodes to the three bytes EF BF BD.
\<close>

theorem Envelope_roundtrip_counterexample:
  "Unmarshal (Marshal_workflowData \<lparr>Keyword = [], Mode = [], Mod = [], Data = [CHR 0xFF]\<rparr>)
     zero_workflowData
   = (None, \<lparr>Keyword = [], Mode = [], Mod = [], Data = [CHR 0xEF, CHR 0xBF, CHR 0xBD]\<rparr>)
   \<and> \<lparr>Keyword = [], Mode = [], Mod = [], Data = [CHR 0xEF, CHR 0xBF, CHR 0xBD]\<rparr>
       \<noteq> \<lparr>Keyword = [], Mode = [], Mod = [], Data = [CHR 0xFF]\<rparr>"
  by (simp add: codec_defs replacement_bytes)

subsection \<open>Opening a workflow\<close>

text \<open>
  C10. For every \<open>workflowDir\<close>, \<^verbatim>\<open>OpenWorkflow(workflowDir, false)\<close> returns a nil
  error and a Workflow whose name, bundleID, cacheDir and dataDir are the values of the
  environment variables \<^verbatim>\<open>alfred_workflow_name\<close>, \<^verbatim>\<open>alfred_workflow_bundleid\<close>,
  \<^verbatim>\<open>alfred_workflow_cache\<close> and \<^verbatim>\<open>alfred_workflow_data\<close>; the file system is
  left as it was (no directory is created, whatever \<^verbatim>\<open>os.MkdirAll\<close> would do), and
  the result is the same for any two values of \<open>workflowDir\<close>.
\<close>

theorem OpenWorkflow_no_create:
  "OpenWorkflow getenv MkdirAll fs workflowDir False =
     ((\<lparr>name = getenv ''alfred_workflow_name'',
        bundleID = getenv ''alfred_workflow_bundleid'',
        cacheDir = getenv ''alfred_workflow_cache'',
        dataDir = getenv ''alfred_workflow_data''\<rparr>, None), fs)
   \<and> OpenWorkflow getenv MkdirAll fs workflowDir False =
       OpenWorkflow getenv MkdirAll fs workflowDir' False"
  by (simp add: OpenWorkflow_def)

end
